theory Spec2Isabelle
  imports Complex_Main "HOL-Library.Word"
begin

section \<open>JavaScript strings\<close>

text \<open>
  A JavaScript string is a sequence of UTF-16 code units. \<open>String.prototype.trim\<close>
  removes, from both ends, the code units that ECMAScript calls WhiteSpace or
  LineTerminator; the regular-expression escape \<^verbatim>\<open>\s\<close> matches exactly the same set.
\<close>

type_synonym code_unit = "16 word"
type_synonym jsstring = "code_unit list"

definition js :: "string \<Rightarrow> jsstring" where
  "js s = map of_char s"

definition isWhiteSpace :: "code_unit \<Rightarrow> bool" where
  "isWhiteSpace c \<longleftrightarrow>
     c = 0x0009 \<or> c = 0x000A \<or> c = 0x000B \<or> c = 0x000C \<or> c = 0x000D \<or> c = 0x0020 \<or>
     c = 0x00A0 \<or> c = 0x1680 \<or> c = 0x2000 \<or> c = 0x2001 \<or> c = 0x2002 \<or> c = 0x2003 \<or>
     c = 0x2004 \<or> c = 0x2005 \<or> c = 0x2006 \<or> c = 0x2007 \<or> c = 0x2008 \<or> c = 0x2009 \<or>
     c = 0x200A \<or> c = 0x2028 \<or> c = 0x2029 \<or> c = 0x202F \<or> c = 0x205F \<or> c = 0x3000 \<or>
     c = 0xFEFF"

definition trimStart :: "jsstring \<Rightarrow> jsstring" where
  "trimStart s = dropWhile isWhiteSpace s"

definition trimEnd :: "jsstring \<Rightarrow> jsstring" where
  "trimEnd s = rev (dropWhile isWhiteSpace (rev s))"

definition trim :: "jsstring \<Rightarrow> jsstring" where
  "trim s = trimEnd (trimStart s)"

section \<open>Regular expressions\<close>

text \<open>
  The fragment of the pattern language that the contact form uses: pattern characters,
  negated character classes whose members are characters or \<^verbatim>\<open>\s\<close>, concatenation and
  the \<^verbatim>\<open>+\<close> quantifier. \<open>Fail\<close>, \<open>Empty\<close>, \<open>Or\<close> and \<open>Many\<close> complete the
  algebra so that the residual of a pattern after one code unit is again a pattern.
\<close>

datatype class_item = WhiteSpaceEscape | Literal code_unit

datatype atom = Lit code_unit | NotIn "class_item list"

datatype regex =
    Fail
  | Empty
  | Atom atom
  | Or regex regex
  | Then regex regex
  | Many regex

definition Plus :: "regex \<Rightarrow> regex" where
  "Plus r = Then r (Many r)"

fun inItem :: "class_item \<Rightarrow> code_unit \<Rightarrow> bool" where
  "inItem WhiteSpaceEscape c = isWhiteSpace c"
| "inItem (Literal d) c = (c = d)"

fun atomMatches :: "atom \<Rightarrow> code_unit \<Rightarrow> bool" where
  "atomMatches (Lit d) c = (c = d)"
| "atomMatches (NotIn items) c = (\<not> list_ex (\<lambda>i. inItem i c) items)"

fun acceptsEmpty :: "regex \<Rightarrow> bool" where
  "acceptsEmpty Fail = False"
| "acceptsEmpty Empty = True"
| "acceptsEmpty (Atom a) = False"
| "acceptsEmpty (Or r s) = (acceptsEmpty r \<or> acceptsEmpty s)"
| "acceptsEmpty (Then r s) = (acceptsEmpty r \<and> acceptsEmpty s)"
| "acceptsEmpty (Many r) = True"

fun residual :: "code_unit \<Rightarrow> regex \<Rightarrow> regex" where
  "residual c Fail = Fail"
| "residual c Empty = Fail"
| "residual c (Atom a) = (if atomMatches a c then Empty else Fail)"
| "residual c (Or r s) = Or (residual c r) (residual c s)"
| "residual c (Then r s) =
     (if acceptsEmpty r then Or (Then (residual c r) s) (residual c s)
      else Then (residual c r) s)"
| "residual c (Many r) = Then (residual c r) (Many r)"

text \<open>
  \<open>test r v\<close> is \<^verbatim>\<open>/^r$/.test(v)\<close>: without flags the two anchors pin the match to the
  whole input, and \<open>test\<close> answers whether some match exists.
\<close>

definition test :: "regex \<Rightarrow> jsstring \<Rightarrow> bool" where
  "test r v = acceptsEmpty (fold residual v r)"

text \<open>The class \<^verbatim>\<open>[^\s@]\<close> and the pattern \<^verbatim>\<open>/^[^\s@]+@[^\s@]+\.[^\s@]+$/\<close>.\<close>

definition notSpaceOrAt :: regex where
  "notSpaceOrAt = Atom (NotIn [WhiteSpaceEscape, Literal 0x0040])"

definition emailRegex :: regex where
  "emailRegex =
     Then (Plus notSpaceOrAt)
       (Then (Atom (Lit 0x0040))
         (Then (Plus notSpaceOrAt)
           (Then (Atom (Lit 0x002E))
             (Plus notSpaceOrAt))))"

subsection \<open>The strings a pattern matches\<close>

text \<open>
  The set of strings that a pattern matches in full, given by the structure of the
  pattern; \<open>test\<close> decides membership in it. \<open>plain\<close> is the class \<^verbatim>\<open>[^\s@]\<close> as a
  predicate.
\<close>

inductive_set repeat :: "jsstring set \<Rightarrow> jsstring set" for A :: "jsstring set" where
  none: "[] \<in> repeat A"
| more: "u \<in> A \<Longrightarrow> w \<in> repeat A \<Longrightarrow> u @ w \<in> repeat A"

definition joined :: "jsstring set \<Rightarrow> jsstring set \<Rightarrow> jsstring set" where
  "joined A B = {u @ w | u w. u \<in> A \<and> w \<in> B}"

fun matched :: "regex \<Rightarrow> jsstring set" where
  "matched Fail = {}"
| "matched Empty = {[]}"
| "matched (Atom a) = {[c] | c. atomMatches a c}"
| "matched (Or r s) = matched r \<union> matched s"
| "matched (Then r s) = joined (matched r) (matched s)"
| "matched (Many r) = repeat (matched r)"

definition after :: "code_unit \<Rightarrow> jsstring set \<Rightarrow> jsstring set" where
  "after c A = {w. c # w \<in> A}"

definition plain :: "code_unit \<Rightarrow> bool" where
  "plain c \<longleftrightarrow> \<not> isWhiteSpace c \<and> c \<noteq> 0x0040"

section \<open>JavaScript numbers\<close>

text \<open>
  A JavaScript number is an IEEE-754 double; every finite double is a rational number, and
  the numbers here stay finite. Arithmetic on doubles returns the exact result rounded to
  a double, and a decimal literal denotes its value rounded to a double. The rounding
  function is a parameter \<open>rnd\<close> of everything that computes with such numbers;
  comparisons, \<^verbatim>\<open>Math.max\<close>, \<^verbatim>\<open>Math.min\<close>, \<^verbatim>\<open>Math.floor\<close> and \<^verbatim>\<open>Math.round\<close> are
  exact, as are integer literals and \<^verbatim>\<open>0.5\<close>. \<^verbatim>\<open>Math.round\<close> rounds to the nearest
  integer, halves upwards.
\<close>

definition Math_round :: "rat \<Rightarrow> rat" where
  "Math_round x = of_int \<lfloor>x + 1 / 2\<rfloor>"

section \<open>Live metrics\<close>

text \<open>A metric of the reports dashboard, \<^verbatim>\<open>{ name, value, trend }\<close>.\<close>

datatype trend = Up | Down | Stable

record LiveMetric =
  name :: string
  "value" :: rat
  trend :: trend

section \<open>View state of the demo page\<close>

text \<open>
  \<open>AnimationState\<close> and \<open>ErrorState\<close> of the SSR demo component. The field \<^verbatim>\<open>id\<close> is
  \<open>animId\<close> here. \<open>UndefinedError\<close> stands for \<^verbatim>\<open>undefined\<close>, which reading the array of
  error types outside its bounds returns.
\<close>

record AnimationState =
  animId :: string
  isActive :: bool
  duration :: nat
  delay :: nat

datatype error_type = NetworkError | ServerError | ClientError | NoError | UndefinedError

record ErrorState =
  hasError :: bool
  errorMessage :: string
  errorType :: error_type
  retryCount :: nat

section \<open>The contact component\<close>

record ContactForm =
  name :: jsstring
  email :: jsstring
  subject :: jsstring
  message :: jsstring
  newsletter :: bool

text \<open>\<open>FormErrors\<close> has four optional keys; an absent key is \<open>None\<close>.\<close>

datatype field = Name | Email | Subject | Message

type_synonym FormErrors = "field \<rightharpoonup> string"

text \<open>
  The two callbacks the component hands to \<^verbatim>\<open>setTimeout\<close>. A pending timeout is the
  time at which it is due together with its callback; \<open>timers\<close> keeps them in the
  order in which they were scheduled, \<open>clock\<close> is the current time in milliseconds.
\<close>

datatype contact_callback = SSRSubmitDone | CSRSubmitDone

text \<open>
  Every component reads the environment once, as \<^verbatim>\<open>typeof window === 'undefined'\<close>, and
  keeps the answer in its \<open>isServer\<close> signal. The contact component's \<open>currentTime\<close>
  is set at construction and never read or written by a method; it is left out.
\<close>

record Environment =
  isServer :: bool

record ContactComponent = Environment +
  formData :: ContactForm
  isSubmitting :: bool
  submitSuccess :: bool
  csrFormData :: ContactForm
  csrErrors :: FormErrors
  isCSRSubmitting :: bool
  csrSubmitSuccess :: bool
  clock :: nat
  timers :: "(nat \<times> contact_callback) list"

definition emptyForm :: ContactForm where
  "emptyForm = \<lparr>name = [], email = [], subject = [], message = [], newsletter = False\<rparr>"

definition newContactComponent :: "bool \<Rightarrow> nat \<Rightarrow> ContactComponent" where
  "newContactComponent server now =
     \<lparr>isServer = server, formData = emptyForm, isSubmitting = False, submitSuccess = False,
      csrFormData = emptyForm, csrErrors = Map.empty, isCSRSubmitting = False,
      csrSubmitSuccess = False, clock = now, timers = []\<rparr>"

definition setTimeout :: "contact_callback \<Rightarrow> nat \<Rightarrow> ContactComponent \<Rightarrow> ContactComponent" where
  "setTimeout cb ms s = s\<lparr>timers := timers s @ [(clock s + ms, cb)]\<rparr>"

subsection \<open>The basic form\<close>

definition updateName :: "jsstring \<Rightarrow> ContactComponent \<Rightarrow> ContactComponent" where
  "updateName v s = s\<lparr>formData := (formData s)\<lparr>name := v\<rparr>\<rparr>"

definition updateEmail :: "jsstring \<Rightarrow> ContactComponent \<Rightarrow> ContactComponent" where
  "updateEmail v s = s\<lparr>formData := (formData s)\<lparr>email := v\<rparr>\<rparr>"

definition updateSubject :: "jsstring \<Rightarrow> ContactComponent \<Rightarrow> ContactComponent" where
  "updateSubject v s = s\<lparr>formData := (formData s)\<lparr>subject := v\<rparr>\<rparr>"

definition updateMessage :: "jsstring \<Rightarrow> ContactComponent \<Rightarrow> ContactComponent" where
  "updateMessage v s = s\<lparr>formData := (formData s)\<lparr>message := v\<rparr>\<rparr>"

definition updateNewsletter :: "bool \<Rightarrow> ContactComponent \<Rightarrow> ContactComponent" where
  "updateNewsletter v s = s\<lparr>formData := (formData s)\<lparr>newsletter := v\<rparr>\<rparr>"

definition resetSSRForm :: "ContactComponent \<Rightarrow> ContactComponent" where
  "resetSSRForm s = s\<lparr>formData := emptyForm\<rparr>"

definition onSubmit :: "ContactComponent \<Rightarrow> ContactComponent" where
  "onSubmit s =
     (if isServer s then s\<lparr>submitSuccess := True\<rparr>
      else setTimeout SSRSubmitDone 2000 (s\<lparr>isSubmitting := True\<rparr>))"

subsection \<open>The validated form\<close>

definition validateField :: "field \<Rightarrow> jsstring \<Rightarrow> ContactComponent \<Rightarrow> ContactComponent" where
  "validateField f v s =
     (let errors = csrErrors s;
          errors' =
            (case f of
               Name \<Rightarrow>
                 if trim v = [] then errors(Name \<mapsto> ''Name is required'')
                 else if length (trim v) < 2
                   then errors(Name \<mapsto> ''Name must be at least 2 characters'')
                 else errors(Name := None)
             | Email \<Rightarrow>
                 if trim v = [] then errors(Email \<mapsto> ''Email is required'')
                 else if \<not> test emailRegex v
                   then errors(Email \<mapsto> ''Please enter a valid email address'')
                 else errors(Email := None)
             | Subject \<Rightarrow>
                 if v = [] then errors(Subject \<mapsto> ''Please select a subject'')
                 else errors(Subject := None)
             | Message \<Rightarrow>
                 if trim v = [] then errors(Message \<mapsto> ''Message is required'')
                 else if length (trim v) < 10
                   then errors(Message \<mapsto> ''Message must be at least 10 characters'')
                 else errors(Message := None))
      in s\<lparr>csrErrors := errors'\<rparr>)"

definition updateCSRName :: "jsstring \<Rightarrow> ContactComponent \<Rightarrow> ContactComponent" where
  "updateCSRName v s = validateField Name v (s\<lparr>csrFormData := (csrFormData s)\<lparr>name := v\<rparr>\<rparr>)"

definition updateCSREmail :: "jsstring \<Rightarrow> ContactComponent \<Rightarrow> ContactComponent" where
  "updateCSREmail v s = validateField Email v (s\<lparr>csrFormData := (csrFormData s)\<lparr>email := v\<rparr>\<rparr>)"

definition updateCSRSubject :: "jsstring \<Rightarrow> ContactComponent \<Rightarrow> ContactComponent" where
  "updateCSRSubject v s =
     validateField Subject v (s\<lparr>csrFormData := (csrFormData s)\<lparr>subject := v\<rparr>\<rparr>)"

definition updateCSRMessage :: "jsstring \<Rightarrow> ContactComponent \<Rightarrow> ContactComponent" where
  "updateCSRMessage v s =
     validateField Message v (s\<lparr>csrFormData := (csrFormData s)\<lparr>message := v\<rparr>\<rparr>)"

definition updateCSRNewsletter :: "bool \<Rightarrow> ContactComponent \<Rightarrow> ContactComponent" where
  "updateCSRNewsletter v s = s\<lparr>csrFormData := (csrFormData s)\<lparr>newsletter := v\<rparr>\<rparr>"

text \<open>\<^verbatim>\<open>Object.keys(errors)\<close>: the keys that are present.\<close>

definition keys :: "FormErrors \<Rightarrow> field list" where
  "keys errors = filter (\<lambda>f. errors f \<noteq> None) [Name, Email, Subject, Message]"

definition resetCSRForm :: "ContactComponent \<Rightarrow> ContactComponent" where
  "resetCSRForm s = s\<lparr>csrFormData := emptyForm, csrErrors := Map.empty\<rparr>"

definition onCSRSubmit :: "ContactComponent \<Rightarrow> ContactComponent" where
  "onCSRSubmit s =
     (let s1 = validateField Name (name (csrFormData s)) s;
          s2 = validateField Email (email (csrFormData s1)) s1;
          s3 = validateField Subject (subject (csrFormData s2)) s2;
          s4 = validateField Message (message (csrFormData s3)) s3
      in if length (keys (csrErrors s4)) > 0 then s4
         else setTimeout CSRSubmitDone 1500 (s4\<lparr>isCSRSubmitting := True\<rparr>))"

subsection \<open>Timeouts\<close>

fun runCallback :: "contact_callback \<Rightarrow> ContactComponent \<Rightarrow> ContactComponent" where
  "runCallback SSRSubmitDone s = resetSSRForm (s\<lparr>isSubmitting := False, submitSuccess := True\<rparr>)"
| "runCallback CSRSubmitDone s =
     resetCSRForm (s\<lparr>isCSRSubmitting := False, csrSubmitSuccess := True\<rparr>)"

text \<open>
  The event loop fires a pending timeout when the clock reaches its due time, earlier
  due times first and, among equal ones, in the order of scheduling. No callback of this
  component schedules a timeout, so the timeouts due up to a time \<open>t\<close> are those
  pending when the clock starts to advance.
\<close>

definition fire :: "nat \<times> contact_callback \<Rightarrow> ContactComponent \<Rightarrow> ContactComponent" where
  "fire p s = runCallback (snd p) (s\<lparr>clock := max (clock s) (fst p), timers := remove1 p (timers s)\<rparr>)"

definition advanceTo :: "nat \<Rightarrow> ContactComponent \<Rightarrow> ContactComponent" where
  "advanceTo t s =
     (let s' = fold fire (sort_key fst (filter (\<lambda>p. fst p \<le> t) (timers s))) s
      in s'\<lparr>clock := max (clock s') t\<rparr>)"

section \<open>Timers and hydration tracking\<close>

text \<open>
  \<^verbatim>\<open>'server' | 'loading' | 'hydrated'\<close>, the type of the \<open>hydrationPhase\<close> signal.
\<close>

datatype phase = Server | Loading | Hydrated

text \<open>
  The timers of one component, as the window keeps them: \<^verbatim>\<open>setTimeout\<close> and
  \<^verbatim>\<open>setInterval\<close> enter a timer under a fresh positive id and return the id;
  \<^verbatim>\<open>clearInterval\<close> removes the timer with the given id; a timeout leaves the table
  when it fires, an interval stays. The ids of a component are drawn from a counter that
  starts at 1; only their being positive and distinct matters. A callback is the
  hydration callback, which every tracking component schedules, or one of the
  component's own.
\<close>

datatype timer_kind = Timeout | Interval

datatype 'a callback = MarkAsHydrated | Own 'a

record 'a timer =
  timerId :: nat
  kind :: timer_kind
  delay :: nat
  callback :: "'a callback"

text \<open>
  The home, products, reports and SSR demo components declare the same hydration signals
  and the same private \<open>componentCreated\<close>, and repeat \<open>ngAfterViewInit\<close> and the
  four assignments of \<open>markAsHydrated\<close>; the record below holds that common part, and
  each component extends it with its own signals. \<^verbatim>\<open>number | null\<close> is \<open>int option\<close>;
  \<^verbatim>\<open>Date.now()\<close> is an integer number of milliseconds, and the field initialisers of
  a constructor read it at one instant.
\<close>

record 'a HydrationTracker = Environment +
  isHydrated :: bool
  hydrationTime :: "int option"
  hydrationDuration :: "int option"
  hydrationPhase :: phase
  componentCreated :: int
  nextTimerId :: nat
  timerTable :: "'a timer list"

definition setTimer ::
  "timer_kind \<Rightarrow> 'a callback \<Rightarrow> nat \<Rightarrow> ('a, 'z) HydrationTracker_scheme \<Rightarrow>
   ('a, 'z) HydrationTracker_scheme" where
  "setTimer k cb d s =
     s\<lparr>nextTimerId := Suc (nextTimerId s),
       timerTable := timerTable s @ [\<lparr>timerId = nextTimerId s, kind = k, delay = d, callback = cb\<rparr>]\<rparr>"

definition setTimeout_id ::
  "'a callback \<Rightarrow> nat \<Rightarrow> ('a, 'z) HydrationTracker_scheme \<Rightarrow> ('a, 'z) HydrationTracker_scheme" where
  "setTimeout_id cb d s = setTimer Timeout cb d s"

definition setInterval_id ::
  "'a callback \<Rightarrow> nat \<Rightarrow> ('a, 'z) HydrationTracker_scheme \<Rightarrow> ('a, 'z) HydrationTracker_scheme" where
  "setInterval_id cb d s = setTimer Interval cb d s"

definition clearInterval ::
  "nat \<Rightarrow> ('a, 'z) HydrationTracker_scheme \<Rightarrow> ('a, 'z) HydrationTracker_scheme" where
  "clearInterval i s = s\<lparr>timerTable := filter (\<lambda>t. timerId t \<noteq> i) (timerTable s)\<rparr>"

text \<open>
  \<^verbatim>\<open>if (this.intervalId) { clearInterval(this.intervalId); }\<close>: an id that was never
  assigned is \<^verbatim>\<open>undefined\<close>, and \<^verbatim>\<open>0\<close> is falsy as well.
\<close>

definition clearIfSet ::
  "nat option \<Rightarrow> ('a, 'z) HydrationTracker_scheme \<Rightarrow> ('a, 'z) HydrationTracker_scheme" where
  "clearIfSet h s = (case h of None \<Rightarrow> s | Some i \<Rightarrow> if i \<noteq> 0 then clearInterval i s else s)"

definition markAsHydrated ::
  "int \<Rightarrow> ('a, 'z) HydrationTracker_scheme \<Rightarrow> ('a, 'z) HydrationTracker_scheme" where
  "markAsHydrated now s =
     (let duration = now - componentCreated s
      in s\<lparr>isHydrated := True, hydrationTime := Some now, hydrationDuration := Some duration,
           hydrationPhase := Hydrated\<rparr>)"

definition ngAfterViewInit ::
  "('a, 'z) HydrationTracker_scheme \<Rightarrow> ('a, 'z) HydrationTracker_scheme" where
  "ngAfterViewInit s = (if \<not> isServer s then setTimeout_id MarkAsHydrated 100 s else s)"

text \<open>
  What happens to a component after its view is attached: the event loop fires one of
  its timers, with \<^verbatim>\<open>Date.now()\<close> and the results of \<^verbatim>\<open>Math.random()\<close> that the callback
  will read; the framework destroys the view; or the user calls one of the component's
  methods. Firing an id that is not in the table does nothing.
\<close>

datatype 'u event = Fire nat int "nat \<Rightarrow> rat" | Destroy | User 'u

definition fireTimer ::
  "('a callback \<Rightarrow> ('a, 'z) HydrationTracker_scheme \<Rightarrow> ('a, 'z) HydrationTracker_scheme) \<Rightarrow>
   nat \<Rightarrow> ('a, 'z) HydrationTracker_scheme \<Rightarrow> ('a, 'z) HydrationTracker_scheme" where
  "fireTimer run i s =
     (case find (\<lambda>t. timerId t = i) (timerTable s) of
        None \<Rightarrow> s
      | Some t \<Rightarrow> run (callback t) (case kind t of Timeout \<Rightarrow> clearInterval i s | Interval \<Rightarrow> s))"

fun trace :: "('e \<Rightarrow> 's \<Rightarrow> 's) \<Rightarrow> 'e list \<Rightarrow> 's \<Rightarrow> 's list" where
  "trace step [] s = [s]"
| "trace step (e # es) s = s # trace step es (step e s)"

subsection \<open>The home component\<close>

text \<open>\<open>title\<close> and \<open>features\<close> are never written and are left out.\<close>

datatype home_callback = UpdateServerTime

record HomeComponent = "home_callback HydrationTracker" +
  serverTime :: int

definition newHomeComponent :: "bool \<Rightarrow> int \<Rightarrow> HomeComponent" where
  "newHomeComponent server now =
     \<lparr>isServer = server, isHydrated = False, hydrationTime = None, hydrationDuration = None,
      hydrationPhase = Server, componentCreated = now, nextTimerId = 1, timerTable = [],
      serverTime = now\<rparr>"

definition Home_ngOnInit :: "HomeComponent \<Rightarrow> HomeComponent" where
  "Home_ngOnInit s =
     (let s1 = (if isServer s then s\<lparr>hydrationPhase := Server\<rparr> else s\<lparr>hydrationPhase := Loading\<rparr>)
      in if \<not> isServer s1 then setInterval_id (Own UpdateServerTime) 1000 s1 else s1)"

fun Home_runCallback :: "int \<Rightarrow> home_callback callback \<Rightarrow> HomeComponent \<Rightarrow> HomeComponent" where
  "Home_runCallback now MarkAsHydrated s = markAsHydrated now s"
| "Home_runCallback now (Own UpdateServerTime) s = s\<lparr>serverTime := now\<rparr>"

text \<open>The class has no \<open>ngOnDestroy\<close> and no method for the user to call.\<close>

fun Home_step :: "unit event \<Rightarrow> HomeComponent \<Rightarrow> HomeComponent" where
  "Home_step (Fire i now rand) s = fireTimer (Home_runCallback now) i s"
| "Home_step Destroy s = s"
| "Home_step (User u) s = s"

definition Home_attached :: "bool \<Rightarrow> int \<Rightarrow> HomeComponent" where
  "Home_attached server now = ngAfterViewInit (Home_ngOnInit (newHomeComponent server now))"

definition Home_execution :: "bool \<Rightarrow> int \<Rightarrow> unit event list \<Rightarrow> HomeComponent list" where
  "Home_execution server now evs =
     newHomeComponent server now # Home_ngOnInit (newHomeComponent server now) #
     trace Home_step evs (Home_attached server now)"

subsection \<open>The products component\<close>

text \<open>
  The catalogue (\<open>products\<close>, \<open>categories\<close>) and the \<open>liveData\<close> map hold data only and
  are left out; \<open>loadProducts\<close>, \<open>initializeLiveData\<close> and \<open>updateLiveData\<close> write
  nothing else, apart from \<open>loading\<close> and the timeout of \<open>loadProducts\<close>.
\<close>

datatype products_callback =
  ProductsLoaded | ProductsRenderTime | ProductsLiveData | ProductsConnection | ProductsUserActivity

datatype view_mode = Grid | ListMode

datatype sort_by = ByName | ByPrice | ByRating

record ProductsComponent = "products_callback HydrationTracker" +
  loading :: bool
  selectedCategory :: string
  renderTime :: int
  cartCount :: nat
  wishlistCount :: nat
  realTimeStatus :: string
  connectionStatus :: string
  updateCount :: nat
  viewMode :: view_mode
  sortBy :: sort_by
  showOnlyInStock :: bool
  intervalId :: "nat option"
  liveDataIntervalId :: "nat option"

definition newProductsComponent :: "bool \<Rightarrow> int \<Rightarrow> ProductsComponent" where
  "newProductsComponent server now =
     \<lparr>isServer = server, isHydrated = False, hydrationTime = None, hydrationDuration = None,
      hydrationPhase = Server, componentCreated = now, nextTimerId = 1, timerTable = [],
      loading = True, selectedCategory = ''all'', renderTime = now, cartCount = 0,
      wishlistCount = 0, realTimeStatus = ''Inactive'', connectionStatus = ''Connected'',
      updateCount = 0, viewMode = Grid, sortBy = ByName, showOnlyInStock = False,
      intervalId = None, liveDataIntervalId = None\<rparr>"

definition loadProducts :: "ProductsComponent \<Rightarrow> ProductsComponent" where
  "loadProducts s =
     (if \<not> isServer s then setTimeout_id (Own ProductsLoaded) 800 s else s\<lparr>loading := False\<rparr>)"

definition startRealTimeUpdates :: "ProductsComponent \<Rightarrow> ProductsComponent" where
  "startRealTimeUpdates s =
     (let s1 = (setInterval_id (Own ProductsRenderTime) 1000 s)\<lparr>intervalId := Some (nextTimerId s)\<rparr>;
          s2 = (setInterval_id (Own ProductsLiveData) 3000 s1)
                 \<lparr>liveDataIntervalId := Some (nextTimerId s1)\<rparr>
      in setInterval_id (Own ProductsConnection) 15000 s2)"

definition simulateUserActivity :: "ProductsComponent \<Rightarrow> ProductsComponent" where
  "simulateUserActivity s = setInterval_id (Own ProductsUserActivity) 10000 s"

definition Products_ngOnInit :: "ProductsComponent \<Rightarrow> ProductsComponent" where
  "Products_ngOnInit s =
     (let s1 = loadProducts s;
          s2 = (if isServer s1 then s1\<lparr>hydrationPhase := Server\<rparr>
                else s1\<lparr>hydrationPhase := Loading\<rparr>)
      in if \<not> isServer s2 then simulateUserActivity (startRealTimeUpdates s2) else s2)"

definition Products_ngOnDestroy :: "ProductsComponent \<Rightarrow> ProductsComponent" where
  "Products_ngOnDestroy s =
     (let s1 = clearIfSet (intervalId s) s in clearIfSet (liveDataIntervalId s1) s1)"

fun Products_runCallback ::
  "(rat \<Rightarrow> rat) \<Rightarrow> int \<Rightarrow> (nat \<Rightarrow> rat) \<Rightarrow> products_callback callback \<Rightarrow>
   ProductsComponent \<Rightarrow> ProductsComponent" where
  "Products_runCallback rnd now rand MarkAsHydrated s = markAsHydrated now s"
| "Products_runCallback rnd now rand (Own ProductsLoaded) s = s\<lparr>loading := False\<rparr>"
| "Products_runCallback rnd now rand (Own ProductsRenderTime) s = s\<lparr>renderTime := now\<rparr>"
| "Products_runCallback rnd now rand (Own ProductsLiveData) s =
     s\<lparr>updateCount := updateCount s + 1, realTimeStatus := ''Active''\<rparr>"
| "Products_runCallback rnd now rand (Own ProductsConnection) s =
     s\<lparr>connectionStatus := (if rand 0 > rnd (95 / 100) then ''Reconnecting...'' else ''Connected'')\<rparr>"
| "Products_runCallback rnd now rand (Own ProductsUserActivity) s =
     (let s1 = (if rand 0 > rnd (7 / 10) then s\<lparr>cartCount := cartCount s + 1\<rparr> else s)
      in if rand 1 > rnd (8 / 10) then s1\<lparr>wishlistCount := wishlistCount s1 + 1\<rparr> else s1)"

datatype products_action =
    FilterByCategory string
  | SetViewMode view_mode
  | SetSortBy sort_by
  | ToggleStockFilter
  | AddToCart
  | AddToWishlist

fun Products_call :: "products_action \<Rightarrow> ProductsComponent \<Rightarrow> ProductsComponent" where
  "Products_call (FilterByCategory category) s = s\<lparr>selectedCategory := category\<rparr>"
| "Products_call (SetViewMode mode) s = s\<lparr>viewMode := mode\<rparr>"
| "Products_call (SetSortBy sort') s = s\<lparr>sortBy := sort'\<rparr>"
| "Products_call ToggleStockFilter s = s\<lparr>showOnlyInStock := \<not> showOnlyInStock s\<rparr>"
| "Products_call AddToCart s = s\<lparr>cartCount := cartCount s + 1\<rparr>"
| "Products_call AddToWishlist s = s\<lparr>wishlistCount := wishlistCount s + 1\<rparr>"

fun Products_step ::
  "(rat \<Rightarrow> rat) \<Rightarrow> products_action event \<Rightarrow> ProductsComponent \<Rightarrow> ProductsComponent" where
  "Products_step rnd (Fire i now rand) s = fireTimer (Products_runCallback rnd now rand) i s"
| "Products_step rnd Destroy s = Products_ngOnDestroy s"
| "Products_step rnd (User a) s = Products_call a s"

definition Products_attached :: "bool \<Rightarrow> int \<Rightarrow> ProductsComponent" where
  "Products_attached server now =
     ngAfterViewInit (Products_ngOnInit (newProductsComponent server now))"

definition Products_execution ::
  "(rat \<Rightarrow> rat) \<Rightarrow> bool \<Rightarrow> int \<Rightarrow> products_action event list \<Rightarrow> ProductsComponent list" where
  "Products_execution rnd server now evs =
     newProductsComponent server now # Products_ngOnInit (newProductsComponent server now) #
     trace (Products_step rnd) evs (Products_attached server now)"

subsection \<open>The reports component\<close>

text \<open>\<^verbatim>\<open>(Math.random() - 0.5) * 10\<close>, for the result \<open>r\<close> of \<^verbatim>\<open>Math.random()\<close>.\<close>

definition randomChange :: "(rat \<Rightarrow> rat) \<Rightarrow> rat \<Rightarrow> rat" where
  "randomChange rnd r = rnd (rnd (r - 1 / 2) * 10)"

text \<open>The body of the \<^verbatim>\<open>map\<close> in \<open>updateLiveMetrics\<close>.\<close>

definition updateMetric :: "(rat \<Rightarrow> rat) \<Rightarrow> rat \<Rightarrow> LiveMetric \<Rightarrow> LiveMetric" where
  "updateMetric rnd r metric =
     (let change = randomChange rnd r;
          newValue = max 0 (min 100 (rnd (value metric + change)));
          trend' = (if change > 2 then Up else if change < - 2 then Down else Stable)
      in metric\<lparr>value := rnd (Math_round (rnd (newValue * 10)) / 10), trend := trend'\<rparr>)"

text \<open>
  The data signals \<open>reports\<close>, \<open>performanceMetrics\<close>, \<open>realTimeData\<close> and
  \<open>chartData\<close> are left out; \<open>loadData\<close> and \<open>updateRealTimeData\<close> write nothing
  else. \<open>currentTime\<close> holds the time that the source formats.
\<close>

datatype reports_callback =
  ReportsLoaded | ReportsRefresh | ReportsStream | ReportsConnection | ReportsReloaded

record ReportsComponent = "reports_callback HydrationTracker" +
  currentTime :: int
  loading :: bool
  activeTab :: string
  dataUpdateCount :: nat
  realTimeStatus :: string
  liveMetrics :: "LiveMetric list"
  serverLoadTime :: int
  clientLoadTime :: int
  connectionStatus :: string
  dataStreamRate :: nat
  intervalId :: "nat option"
  realTimeIntervalId :: "nat option"
  startTime :: int
  updateCounter :: nat

definition newReportsComponent :: "bool \<Rightarrow> int \<Rightarrow> ReportsComponent" where
  "newReportsComponent server now =
     \<lparr>isServer = server, isHydrated = False, hydrationTime = None, hydrationDuration = None,
      hydrationPhase = Server, componentCreated = now, nextTimerId = 1, timerTable = [],
      currentTime = now, loading = True, activeTab = ''overview'', dataUpdateCount = 0,
      realTimeStatus = ''Inactive'', liveMetrics = [], serverLoadTime = 0, clientLoadTime = 0,
      connectionStatus = ''Connected'', dataStreamRate = 0, intervalId = None,
      realTimeIntervalId = None, startTime = now, updateCounter = 0\<rparr>"

definition initializeLiveMetrics :: "(rat \<Rightarrow> rat) \<Rightarrow> ReportsComponent \<Rightarrow> ReportsComponent" where
  "initializeLiveMetrics rnd s =
     s\<lparr>liveMetrics :=
         [\<lparr>LiveMetric.name = ''CPU Usage'', value = 45, trend = Stable\<rparr>,
          \<lparr>LiveMetric.name = ''Memory Usage'', value = 62, trend = Up\<rparr>,
          \<lparr>LiveMetric.name = ''Network Latency'', value = 28, trend = Down\<rparr>,
          \<lparr>LiveMetric.name = ''Active Users'', value = 1234, trend = Up\<rparr>,
          \<lparr>LiveMetric.name = ''Requests/sec'', value = 156, trend = Up\<rparr>,
          \<lparr>LiveMetric.name = ''Error Rate'', value = rnd (2 / 10), trend = Stable\<rparr>]\<rparr>"

definition updateLiveMetrics ::
  "(rat \<Rightarrow> rat) \<Rightarrow> (nat \<Rightarrow> rat) \<Rightarrow> ReportsComponent \<Rightarrow> ReportsComponent" where
  "updateLiveMetrics rnd rand s =
     (let currentMetrics = liveMetrics s;
          updatedMetrics =
            map (\<lambda>i. updateMetric rnd (rand i) (currentMetrics ! i)) [0..<length currentMetrics]
      in s\<lparr>liveMetrics := updatedMetrics\<rparr>)"

definition loadInitialData :: "int \<Rightarrow> ReportsComponent \<Rightarrow> ReportsComponent" where
  "loadInitialData now s =
     (let loadTime = now - startTime s
      in if \<not> isServer s
         then setTimeout_id (Own ReportsLoaded) 800 (s\<lparr>clientLoadTime := loadTime\<rparr>)
         else s\<lparr>serverLoadTime := loadTime, loading := False\<rparr>)"

text \<open>
  \<open>ngOnInit\<close> reads the clock twice: for \<open>startTime\<close>, and in \<open>loadInitialData\<close>.
\<close>

definition Reports_ngOnInit :: "int \<Rightarrow> int \<Rightarrow> ReportsComponent \<Rightarrow> ReportsComponent" where
  "Reports_ngOnInit now now' s =
     (let s1 = loadInitialData now' (s\<lparr>startTime := now\<rparr>);
          s2 = (if isServer s1 then s1\<lparr>hydrationPhase := Server\<rparr>
                else s1\<lparr>hydrationPhase := Loading\<rparr>)
      in if \<not> isServer s2
         then (let s3 = (setInterval_id (Own ReportsRefresh) 2000 s2)
                          \<lparr>intervalId := Some (nextTimerId s2)\<rparr>;
                   s4 = (setInterval_id (Own ReportsStream) 500 s3)
                          \<lparr>realTimeIntervalId := Some (nextTimerId s3)\<rparr>
               in setInterval_id (Own ReportsConnection) 10000 s4)
         else s2)"

definition Reports_ngOnDestroy :: "ReportsComponent \<Rightarrow> ReportsComponent" where
  "Reports_ngOnDestroy s =
     (let s1 = clearIfSet (intervalId s) s in clearIfSet (realTimeIntervalId s1) s1)"

fun Reports_runCallback ::
  "(rat \<Rightarrow> rat) \<Rightarrow> int \<Rightarrow> (nat \<Rightarrow> rat) \<Rightarrow> reports_callback callback \<Rightarrow> ReportsComponent \<Rightarrow>
   ReportsComponent" where
  "Reports_runCallback rnd now rand MarkAsHydrated s = markAsHydrated now s"
| "Reports_runCallback rnd now rand (Own ReportsLoaded) s =
     initializeLiveMetrics rnd (s\<lparr>loading := False\<rparr>)"
| "Reports_runCallback rnd now rand (Own ReportsRefresh) s =
     s\<lparr>currentTime := now, dataUpdateCount := dataUpdateCount s + 1,
       updateCounter := updateCounter s + 1\<rparr>"
| "Reports_runCallback rnd now rand (Own ReportsStream) s =
     (updateLiveMetrics rnd rand s)\<lparr>dataStreamRate := dataStreamRate s + 1, realTimeStatus := ''Active''\<rparr>"
| "Reports_runCallback rnd now rand (Own ReportsConnection) s =
     s\<lparr>connectionStatus := (if rand 0 > rnd (95 / 100) then ''Reconnecting...'' else ''Connected'')\<rparr>"
| "Reports_runCallback rnd now rand (Own ReportsReloaded) s = s\<lparr>loading := False\<rparr>"

datatype reports_action = SetActiveTab string | RefreshData int

fun Reports_call :: "reports_action \<Rightarrow> ReportsComponent \<Rightarrow> ReportsComponent" where
  "Reports_call (SetActiveTab tab) s = s\<lparr>activeTab := tab\<rparr>"
| "Reports_call (RefreshData now) s =
     setTimeout_id (Own ReportsReloaded) 500 (s\<lparr>loading := True, startTime := now\<rparr>)"

fun Reports_step ::
  "(rat \<Rightarrow> rat) \<Rightarrow> reports_action event \<Rightarrow> ReportsComponent \<Rightarrow> ReportsComponent" where
  "Reports_step rnd (Fire i now rand) s = fireTimer (Reports_runCallback rnd now rand) i s"
| "Reports_step rnd Destroy s = Reports_ngOnDestroy s"
| "Reports_step rnd (User a) s = Reports_call a s"

definition Reports_attached :: "bool \<Rightarrow> int \<Rightarrow> int \<Rightarrow> int \<Rightarrow> ReportsComponent" where
  "Reports_attached server created now now' =
     ngAfterViewInit (Reports_ngOnInit now now' (newReportsComponent server created))"

definition Reports_execution ::
  "(rat \<Rightarrow> rat) \<Rightarrow> bool \<Rightarrow> int \<Rightarrow> int \<Rightarrow> int \<Rightarrow> reports_action event list \<Rightarrow>
   ReportsComponent list" where
  "Reports_execution rnd server created now now' evs =
     newReportsComponent server created #
     Reports_ngOnInit now now' (newReportsComponent server created) #
     trace (Reports_step rnd) evs (Reports_attached server created now now')"

subsection \<open>The SSR demo component\<close>

text \<open>
  The component tracks hydration like the other three; its \<open>markAsHydrated\<close> goes on to
  start the animations when their tab is open. \<open>graphData\<close>, the chart options and the
  three constant scores hold data only and are left out. \<open>progress\<close> is the local
  variable of \<open>simulateLoading\<close> that its interval callback updates. A callback carries
  what its closure captured: a start time, the id of the interval, or a list of
  animation states. Every clock reading within one callback returns the time of the
  event.
\<close>

datatype ssr_callback =
    ServerRendered int
  | ClientHydrated int
  | LoadingTick nat
  | AnimationsOn "AnimationState list"
  | MaybeError
  | StartAnimations
  | RetryDone

record SsrDemoComponent = "ssr_callback HydrationTracker" +
  serverRenderTime :: int
  clientHydrationTime :: int
  totalLoadTime :: int
  animationStates :: "AnimationState list"
  hasApex :: bool
  errorState :: ErrorState
  isLoading :: bool
  loadingProgress :: rat
  loadingMessage :: string
  activeTab :: string
  showAnimations :: bool
  showGraphs :: bool
  showErrors :: bool
  progress :: rat

definition newSsrDemoComponent :: "bool \<Rightarrow> int \<Rightarrow> SsrDemoComponent" where
  "newSsrDemoComponent server now =
     \<lparr>isServer = server, isHydrated = False, hydrationTime = None, hydrationDuration = None,
      hydrationPhase = Server, componentCreated = now, nextTimerId = 1, timerTable = [],
      serverRenderTime = 0, clientHydrationTime = 0, totalLoadTime = 0,
      animationStates =
        [\<lparr>animId = ''fade-in'', isActive = True, duration = 800, delay = 0\<rparr>,
         \<lparr>animId = ''slide-up'', isActive = True, duration = 600, delay = 200\<rparr>,
         \<lparr>animId = ''scale-in'', isActive = True, duration = 500, delay = 400\<rparr>,
         \<lparr>animId = ''rotate-in'', isActive = True, duration = 700, delay = 600\<rparr>],
      hasApex = False,
      errorState = \<lparr>hasError = False, errorMessage = [], errorType = NoError, retryCount = 0\<rparr>,
      isLoading = True, loadingProgress = 0, loadingMessage = ''Initializing SSR Demo...'',
      activeTab = ''graphs'', showAnimations = True, showGraphs = True, showErrors = False,
      progress = 0\<rparr>"

definition simulateLoading :: "SsrDemoComponent \<Rightarrow> SsrDemoComponent" where
  "simulateLoading s = setInterval_id (Own (LoadingTick (nextTimerId s))) 100 (s\<lparr>progress := 0\<rparr>)"

definition initializeComponent :: "SsrDemoComponent \<Rightarrow> SsrDemoComponent" where
  "initializeComponent s =
     (let s1 = (if isServer s then s\<lparr>hydrationPhase := Server\<rparr> else s\<lparr>hydrationPhase := Loading\<rparr>)
      in if \<not> isServer s1 then simulateLoading s1
         else s1\<lparr>isLoading := False, loadingProgress := 100,
                 loadingMessage := ''Server rendering complete''\<rparr>)"

definition simulateServerRendering :: "int \<Rightarrow> SsrDemoComponent \<Rightarrow> SsrDemoComponent" where
  "simulateServerRendering now s = setTimeout_id (Own (ServerRendered now)) 300 s"

definition simulateClientHydration :: "int \<Rightarrow> SsrDemoComponent \<Rightarrow> SsrDemoComponent" where
  "simulateClientHydration now s = setTimeout_id (Own (ClientHydrated now)) 500 s"

definition activateAnimations :: "SsrDemoComponent \<Rightarrow> SsrDemoComponent" where
  "activateAnimations s =
     (let animations = animationStates s;
          resetAnimations = map (\<lambda>animation. animation\<lparr>isActive := False\<rparr>) animations
      in setTimeout_id (Own (AnimationsOn animations)) 100 (s\<lparr>animationStates := resetAnimations\<rparr>))"

definition setupErrorHandling :: "SsrDemoComponent \<Rightarrow> SsrDemoComponent" where
  "setupErrorHandling s = (if \<not> isServer s then setTimeout_id (Own MaybeError) 2000 s else s)"

fun getErrorMessage :: "error_type \<Rightarrow> string" where
  "getErrorMessage NetworkError =
     ''Network connection error. Please check your internet connection.''"
| "getErrorMessage ServerError = ''Server temporarily unavailable. Please try again later.''"
| "getErrorMessage ClientError = ''Client-side error occurred. Refreshing the page may help.''"
| "getErrorMessage t = ''An unexpected error occurred.''"

text \<open>
  \<^verbatim>\<open>errorTypes[Math.floor(Math.random() * errorTypes.length)]\<close>, for the result \<open>r\<close> of
  \<^verbatim>\<open>Math.random()\<close>.
\<close>

definition simulateError :: "(rat \<Rightarrow> rat) \<Rightarrow> rat \<Rightarrow> SsrDemoComponent \<Rightarrow> SsrDemoComponent" where
  "simulateError rnd r s =
     (let index = \<lfloor>rnd (r * 3)\<rfloor>;
          randomType = (if index = 0 then NetworkError else if index = 1 then ServerError
                        else if index = 2 then ClientError else UndefinedError)
      in s\<lparr>errorState :=
             \<lparr>hasError = True, errorMessage = getErrorMessage randomType, errorType = randomType,
              retryCount = retryCount (errorState s) + 1\<rparr>\<rparr>)"

definition SsrDemo_ngOnInit :: "int \<Rightarrow> SsrDemoComponent \<Rightarrow> SsrDemoComponent" where
  "SsrDemo_ngOnInit now s =
     (let s1 = initializeComponent s;
          s2 = simulateServerRendering now s1;
          s3 = setupErrorHandling s2
      in if \<not> isServer s3 then s3\<lparr>hasApex := True\<rparr> else s3)"

definition SsrDemo_markAsHydrated :: "int \<Rightarrow> SsrDemoComponent \<Rightarrow> SsrDemoComponent" where
  "SsrDemo_markAsHydrated now s =
     (let s1 = markAsHydrated now s
      in if activeTab s1 = ''animations'' \<and> showAnimations s1
         then setTimeout_id (Own StartAnimations) 500 s1 else s1)"

definition loadingTick ::
  "(rat \<Rightarrow> rat) \<Rightarrow> rat \<Rightarrow> nat \<Rightarrow> SsrDemoComponent \<Rightarrow> SsrDemoComponent" where
  "loadingTick rnd r interval s =
     (let s1 = s\<lparr>progress := rnd (progress s + rnd (r * 15))\<rparr>;
          s2 = (if progress s1 \<ge> 100
                then (clearInterval interval (s1\<lparr>progress := 100\<rparr>))
                       \<lparr>isLoading := False, loadingMessage := ''SSR Demo ready!''\<rparr>
                else s1);
          s3 = s2\<lparr>loadingProgress := Math_round (progress s2)\<rparr>
      in if progress s3 < 30 then s3\<lparr>loadingMessage := ''Initializing server rendering...''\<rparr>
         else if progress s3 < 60 then s3\<lparr>loadingMessage := ''Generating static content...''\<rparr>
         else if progress s3 < 90 then s3\<lparr>loadingMessage := ''Preparing client hydration...''\<rparr>
         else s3\<lparr>loadingMessage := ''Finalizing SSR demo...''\<rparr>)"

fun SsrDemo_runCallback ::
  "(rat \<Rightarrow> rat) \<Rightarrow> int \<Rightarrow> (nat \<Rightarrow> rat) \<Rightarrow> ssr_callback callback \<Rightarrow> SsrDemoComponent \<Rightarrow>
   SsrDemoComponent" where
  "SsrDemo_runCallback rnd now rand MarkAsHydrated s = SsrDemo_markAsHydrated now s"
| "SsrDemo_runCallback rnd now rand (Own (ServerRendered start)) s =
     (let s1 = activateAnimations (s\<lparr>serverRenderTime := now - start\<rparr>)
      in if \<not> isServer s1 then simulateClientHydration now s1 else s1)"
| "SsrDemo_runCallback rnd now rand (Own (ClientHydrated start)) s =
     (let elapsed = now - start
      in s\<lparr>clientHydrationTime := elapsed, totalLoadTime := serverRenderTime s + elapsed\<rparr>)"
| "SsrDemo_runCallback rnd now rand (Own (LoadingTick interval)) s =
     loadingTick rnd (rand 0) interval s"
| "SsrDemo_runCallback rnd now rand (Own (AnimationsOn animations)) s =
     s\<lparr>animationStates := map (\<lambda>animation. animation\<lparr>isActive := True\<rparr>) animations\<rparr>"
| "SsrDemo_runCallback rnd now rand (Own MaybeError) s =
     (if rand 0 > rnd (8 / 10) then simulateError rnd (rand 1) s else s)"
| "SsrDemo_runCallback rnd now rand (Own StartAnimations) s = activateAnimations s"
| "SsrDemo_runCallback rnd now rand (Own RetryDone) s =
     s\<lparr>loadingMessage := ''Operation retried successfully!''\<rparr>"

text \<open>The methods the template calls; \<open>toggleErrorDemo\<close> may draw a random number.\<close>

datatype ssr_action =
    RetryOperation
  | ToggleAnimations
  | ToggleGraphs
  | ToggleErrorDemo rat
  | SetTab string

fun SsrDemo_call :: "(rat \<Rightarrow> rat) \<Rightarrow> ssr_action \<Rightarrow> SsrDemoComponent \<Rightarrow> SsrDemoComponent" where
  "SsrDemo_call rnd RetryOperation s =
     setTimeout_id (Own RetryDone) 1000
       (s\<lparr>errorState :=
            \<lparr>hasError = False, errorMessage = [], errorType = NoError,
             retryCount = retryCount (errorState s)\<rparr>\<rparr>)"
| "SsrDemo_call rnd ToggleAnimations s =
     (let s1 = s\<lparr>showAnimations := \<not> showAnimations s\<rparr>
      in if showAnimations s1 then setTimeout_id (Own StartAnimations) 200 s1 else s1)"
| "SsrDemo_call rnd ToggleGraphs s = s\<lparr>showGraphs := \<not> showGraphs s\<rparr>"
| "SsrDemo_call rnd (ToggleErrorDemo r) s =
     (if showErrors s
      then s\<lparr>showErrors := False,
             errorState :=
               \<lparr>hasError = False, errorMessage = [], errorType = NoError, retryCount = 0\<rparr>\<rparr>
      else simulateError rnd r (s\<lparr>showErrors := True\<rparr>))"
| "SsrDemo_call rnd (SetTab tab) s =
     (let s1 = s\<lparr>activeTab := tab\<rparr>
      in if tab = ''animations'' \<and> showAnimations s1
         then setTimeout_id (Own StartAnimations) 300 s1 else s1)"

text \<open>The class has no \<open>ngOnDestroy\<close>.\<close>

fun SsrDemo_step ::
  "(rat \<Rightarrow> rat) \<Rightarrow> ssr_action event \<Rightarrow> SsrDemoComponent \<Rightarrow> SsrDemoComponent" where
  "SsrDemo_step rnd (Fire i now rand) s = fireTimer (SsrDemo_runCallback rnd now rand) i s"
| "SsrDemo_step rnd Destroy s = s"
| "SsrDemo_step rnd (User a) s = SsrDemo_call rnd a s"

definition SsrDemo_attached :: "bool \<Rightarrow> int \<Rightarrow> int \<Rightarrow> SsrDemoComponent" where
  "SsrDemo_attached server created now =
     ngAfterViewInit (SsrDemo_ngOnInit now (newSsrDemoComponent server created))"

definition SsrDemo_execution ::
  "(rat \<Rightarrow> rat) \<Rightarrow> bool \<Rightarrow> int \<Rightarrow> int \<Rightarrow> ssr_action event list \<Rightarrow> SsrDemoComponent list" where
  "SsrDemo_execution rnd server created now evs =
     newSsrDemoComponent server created #
     SsrDemo_ngOnInit now (newSsrDemoComponent server created) #
     trace (SsrDemo_step rnd) evs (SsrDemo_attached server created now)"

subsection \<open>Outcomes of a submission and example forms\<close>

definition revalidated :: "ContactComponent \<Rightarrow> ContactComponent" where
  "revalidated s =
     validateField Message (message (csrFormData s))
       (validateField Subject (subject (csrFormData s))
         (validateField Email (email (csrFormData s))
           (validateField Name (name (csrFormData s)) s)))"

definition csrDone :: "ContactComponent \<Rightarrow> bool" where
  "csrDone s \<longleftrightarrow>
     csrSubmitSuccess s \<and> \<not> isCSRSubmitting s \<and> csrFormData s = emptyForm \<and>
     csrErrors s = Map.empty"

definition ssrDone :: "ContactComponent \<Rightarrow> bool" where
  "ssrDone s \<longleftrightarrow> submitSuccess s \<and> \<not> isSubmitting s \<and> formData s = emptyForm"

text \<open>The two example inputs of the specification, typed into the validated form.\<close>

definition invalidExample :: ContactComponent where
  "invalidExample =
     updateCSRMessage (js ''short'')
       (updateCSRSubject []
         (updateCSREmail (js ''bad'')
           (updateCSRName (js ''J'') (newContactComponent False 0))))"

definition validExample :: ContactComponent where
  "validExample =
     updateCSRMessage (js ''Hello there!'')
       (updateCSRSubject (js ''General'')
         (updateCSREmail (js ''a@b.co'')
           (updateCSRName (js ''Jo'') (newContactComponent False 0))))"

definition serverExample :: ContactComponent where
  "serverExample = updateName (js ''Jo'') (newContactComponent True 0)"

definition browserExample :: ContactComponent where
  "browserExample = updateName (js ''Jo'') (newContactComponent False 0)"

subsection \<open>Phase order, invariants and example inputs\<close>

text \<open>
  The phases in their order server, loading, hydrated. A phase advances to every phase
  that is not earlier; a step keeps the phase or makes it \<open>Hydrated\<close>.
\<close>

fun phaseRank :: "phase \<Rightarrow> nat" where
  "phaseRank Server = 0"
| "phaseRank Loading = 1"
| "phaseRank Hydrated = 2"

definition advances :: "phase \<Rightarrow> phase \<Rightarrow> bool" where
  "advances p q \<longleftrightarrow> phaseRank p \<le> phaseRank q"

definition keepsOrHydrates :: "phase \<Rightarrow> phase \<Rightarrow> bool" where
  "keepsOrHydrates p q \<longleftrightarrow> q = p \<or> q = Hydrated"

text \<open>
  The pending hydration callbacks of a component, the timeout that \<open>ngAfterViewInit\<close>
  enters under the id \<open>k\<close>, and the hydration signals as \<open>markAsHydrated\<close> leaves them
  at time \<open>now\<close> in a component created at time \<open>created\<close>.
\<close>

definition hydrationTimers :: "('a, 'z) HydrationTracker_scheme \<Rightarrow> 'a timer list" where
  "hydrationTimers s = filter (\<lambda>t. callback t = MarkAsHydrated) (timerTable s)"

definition hydrationTimer :: "nat \<Rightarrow> 'a timer" where
  "hydrationTimer k = \<lparr>timerId = k, kind = Timeout, delay = 100, callback = MarkAsHydrated\<rparr>"

definition hydratedAt :: "int \<Rightarrow> int \<Rightarrow> ('a, 'z) HydrationTracker_scheme \<Rightarrow> bool" where
  "hydratedAt created now s \<longleftrightarrow>
     isHydrated s \<and> hydrationTime s = Some now \<and> hydrationDuration s = Some (now - created) \<and>
     hydrationPhase s = Hydrated"

text \<open>
  Invariants of a run. The ids in the table are distinct and below the next id. In the
  browser either the hydration timeout is the one pending hydration callback and nothing
  is hydrated yet, or no hydration callback is pending and the signals are as a firing
  left them. On the server no hydration callback is pending and the phase is \<open>Server\<close>.
\<close>

definition timersFresh :: "('a, 'z) HydrationTracker_scheme \<Rightarrow> bool" where
  "timersFresh s \<longleftrightarrow>
     (\<forall>t\<in>set (timerTable s). timerId t < nextTimerId s) \<and> distinct (map timerId (timerTable s))"

definition awaiting :: "nat \<Rightarrow> ('a, 'z) HydrationTracker_scheme \<Rightarrow> bool" where
  "awaiting k s \<longleftrightarrow>
     hydrationTimers s = [hydrationTimer k] \<and> \<not> isHydrated s \<and> hydrationPhase s = Loading"

definition browserInv :: "nat \<Rightarrow> int \<Rightarrow> ('a, 'z) HydrationTracker_scheme \<Rightarrow> bool" where
  "browserInv k c s \<longleftrightarrow>
     \<not> isServer s \<and> componentCreated s = c \<and> timersFresh s \<and>
     (awaiting k s \<or> (hydrationTimers s = [] \<and> (\<exists>now. hydratedAt c now s)))"

definition serverInv :: "('a, 'z) HydrationTracker_scheme \<Rightarrow> bool" where
  "serverInv s \<longleftrightarrow>
     isServer s \<and> hydrationTimers s = [] \<and> hydrationPhase s = Server \<and> \<not> isHydrated s"

text \<open>The interval ids that \<open>ngOnInit\<close> stores in a browser.\<close>

definition Products_ids :: "ProductsComponent \<Rightarrow> bool" where
  "Products_ids s \<longleftrightarrow>
     ProductsComponent.intervalId s = Some 2 \<and> liveDataIntervalId s = Some 3"

definition Reports_ids :: "ReportsComponent \<Rightarrow> bool" where
  "Reports_ids s \<longleftrightarrow> intervalId s = Some 2 \<and> realTimeIntervalId s = Some 3"

text \<open>
  Every pending callback of \<open>simulateLoading\<close> captured the interval id \<open>n\<close>; with the
  browser invariant this is the invariant of the SSR demo component.
\<close>

definition loadingTicksOf :: "nat \<Rightarrow> SsrDemoComponent \<Rightarrow> bool" where
  "loadingTicksOf n s \<longleftrightarrow>
     (\<forall>t\<in>set (timerTable s). \<forall>m. callback t = Own (LoadingTick m) \<longrightarrow> m = n)"

definition SsrDemo_inv :: "int \<Rightarrow> SsrDemoComponent \<Rightarrow> bool" where
  "SsrDemo_inv c s \<longleftrightarrow> browserInv 4 c s \<and> loadingTicksOf 1 s"

text \<open>
  The two ways a component may treat hydration, given its step function and its state
  after the view is attached. \<open>staysServer\<close>: after any sequence of events no hydration
  callback is pending, the phase is \<open>Server\<close> and \<open>isHydrated\<close> is false.
  \<open>hydratesOnce created k\<close>: the state after attachment holds exactly the hydration
  timeout \<open>k\<close>; after any sequence of events either that timeout is still the one pending
  hydration callback, nothing is hydrated, and firing it at any time \<open>now\<close> leaves the
  signals hydrated at \<open>now\<close>, or no hydration callback is pending and the signals are as
  a firing left them.
\<close>

definition staysServer ::
  "('e \<Rightarrow> ('a, 'z) HydrationTracker_scheme \<Rightarrow> ('a, 'z) HydrationTracker_scheme) \<Rightarrow>
   ('a, 'z) HydrationTracker_scheme \<Rightarrow> bool" where
  "staysServer step s0 \<longleftrightarrow>
     (\<forall>evs. let s = fold step evs s0
            in hydrationTimers s = [] \<and> hydrationPhase s = Server \<and> \<not> isHydrated s)"

definition hydratesOnce ::
  "int \<Rightarrow> nat \<Rightarrow>
   ('u event \<Rightarrow> ('a, 'z) HydrationTracker_scheme \<Rightarrow> ('a, 'z) HydrationTracker_scheme) \<Rightarrow>
   ('a, 'z) HydrationTracker_scheme \<Rightarrow> bool" where
  "hydratesOnce created k step s0 \<longleftrightarrow>
     hydrationTimers s0 = [hydrationTimer k] \<and>
     (\<forall>evs. let s = fold step evs s0
            in (hydrationTimers s = [hydrationTimer k] \<and> \<not> isHydrated s \<and>
                (\<forall>now rand. hydratedAt created now (step (Fire k now rand) s))) \<or>
               (hydrationTimers s = [] \<and> (\<exists>now. hydratedAt created now s)))"

text \<open>
  Inputs for the examples: a source of random numbers that always returns 0.9, and
  arithmetic without rounding error.
\<close>

definition exampleRand :: "nat \<Rightarrow> rat" where
  "exampleRand i = 9 / 10"

definition exact :: "rat \<Rightarrow> rat" where
  "exact x = x"

text \<open>
  What the bounds below need of rounding to the nearest double: it is monotone, and it
  leaves the multiples of one half up to 1000 in magnitude, which are doubles, unchanged.
\<close>

definition roundsLikeDouble :: "(rat \<Rightarrow> rat) \<Rightarrow> bool" where
  "roundsLikeDouble rnd \<longleftrightarrow>
     mono rnd \<and> (\<forall>k::int. \<bar>k\<bar> \<le> 2000 \<longrightarrow> rnd (of_int k / 2) = of_int k / 2)"

text \<open>The reports component in a browser after its load timeout has fired.\<close>

definition loadedReports :: ReportsComponent where
  "loadedReports =
     Reports_step exact (Fire 1 800 exampleRand) (Reports_attached False 0 0 0)"

section \<open>Properties of the contact component\<close>

subsection \<open>Auxiliary facts\<close>

lemma all_dropWhile: "(\<forall>x\<in>set (dropWhile P xs). P x) \<longleftrightarrow> (\<forall>x\<in>set xs. P x)"
  by (induction xs) auto

lemma trim_empty_iff: "trim v = [] \<longleftrightarrow> (\<forall>c\<in>set v. isWhiteSpace c)"
  by (simp add: trim_def trimStart_def trimEnd_def all_dropWhile)

lemma acceptsEmpty_matched: "acceptsEmpty r \<longleftrightarrow> [] \<in> matched r"
  by (induction r) (auto simp: joined_def intro: repeat.none)

lemma after_joined:
  "after c (joined A B) = joined (after c A) B \<union> (if [] \<in> A then after c B else {})"
proof (rule set_eqI)
  fix w
  show "w \<in> after c (joined A B) \<longleftrightarrow>
        w \<in> joined (after c A) B \<union> (if [] \<in> A then after c B else {})"
  proof
    assume "w \<in> after c (joined A B)"
    then obtain u v where uv: "c # w = u @ v" "u \<in> A" "v \<in> B"
      by (auto simp: after_def joined_def)
    show "w \<in> joined (after c A) B \<union> (if [] \<in> A then after c B else {})"
    proof (cases u)
      case Nil
      with uv show ?thesis by (auto simp: after_def)
    next
      case (Cons d u')
      with uv have "d = c" "w = u' @ v" by simp_all
      with uv Cons have "u' \<in> after c A" by (simp add: after_def)
      with \<open>w = u' @ v\<close> uv(3) show ?thesis by (auto simp: joined_def)
    qed
  next
    assume "w \<in> joined (after c A) B \<union> (if [] \<in> A then after c B else {})"
    then show "w \<in> after c (joined A B)"
    proof
      assume "w \<in> joined (after c A) B"
      then obtain u v where "w = u @ v" "c # u \<in> A" "v \<in> B"
        by (auto simp: joined_def after_def)
      then have "c # w = (c # u) @ v \<and> c # u \<in> A \<and> v \<in> B" by simp
      then show ?thesis unfolding after_def joined_def by blast
    next
      assume "w \<in> (if [] \<in> A then after c B else {})"
      then have "[] \<in> A" "c # w \<in> B" by (auto simp: after_def split: if_splits)
      then have "c # w = [] @ (c # w) \<and> [] \<in> A \<and> c # w \<in> B" by simp
      then show ?thesis unfolding after_def joined_def by blast
    qed
  qed
qed

lemma repeat_split:
  "x \<in> repeat A \<Longrightarrow> x = c # w \<Longrightarrow> \<exists>u v. w = u @ v \<and> c # u \<in> A \<and> v \<in> repeat A"
proof (induction arbitrary: rule: repeat.induct)
  case none
  then show ?case by simp
next
  case (more u x)
  show ?case
  proof (cases u)
    case Nil
    with more show ?thesis by simp
  next
    case (Cons d u')
    with more.prems have "d = c" "w = u' @ x" by simp_all
    with more.hyps Cons show ?thesis by blast
  qed
qed

lemma after_repeat: "after c (repeat A) = joined (after c A) (repeat A)"
proof (rule set_eqI)
  fix w
  show "w \<in> after c (repeat A) \<longleftrightarrow> w \<in> joined (after c A) (repeat A)"
  proof
    assume "w \<in> after c (repeat A)"
    then have "c # w \<in> repeat A" by (simp add: after_def)
    then obtain u v where "w = u @ v" "c # u \<in> A" "v \<in> repeat A"
      using repeat_split by blast
    then show "w \<in> joined (after c A) (repeat A)" by (auto simp: joined_def after_def)
  next
    assume "w \<in> joined (after c A) (repeat A)"
    then obtain u v where "w = u @ v" "c # u \<in> A" "v \<in> repeat A"
      by (auto simp: joined_def after_def)
    then have "(c # u) @ v \<in> repeat A" by (blast intro: repeat.more)
    with \<open>w = u @ v\<close> show "w \<in> after c (repeat A)" by (simp add: after_def)
  qed
qed

lemma matched_residual: "matched (residual c r) = after c (matched r)"
proof (induction r)
  case (Atom a)
  then show ?case by (auto simp: after_def)
next
  case (Then r s)
  then show ?case by (simp add: after_joined acceptsEmpty_matched)
next
  case (Many r)
  then show ?case by (simp add: after_repeat)
qed (auto simp: after_def)

lemma test_matched: "test r v \<longleftrightarrow> v \<in> matched r"
proof (induction v arbitrary: r)
  case Nil
  then show ?case by (simp add: test_def acceptsEmpty_matched)
next
  case (Cons c v)
  have "test r (c # v) \<longleftrightarrow> test (residual c r) v" by (simp add: test_def)
  also have "\<dots> \<longleftrightarrow> v \<in> matched (residual c r)" by (rule Cons.IH)
  also have "\<dots> \<longleftrightarrow> c # v \<in> matched r" by (simp add: matched_residual after_def)
  finally show ?case .
qed

lemma repeat_plain:
  "w \<in> repeat {[c] | c. plain c} \<longleftrightarrow> (\<forall>c\<in>set w. plain c)"
proof
  assume "w \<in> repeat {[c] | c. plain c}"
  then show "\<forall>c\<in>set w. plain c" by (induction rule: repeat.induct) auto
next
  assume "\<forall>c\<in>set w. plain c"
  then show "w \<in> repeat {[c] | c. plain c}"
  proof (induction w)
    case Nil
    show ?case by (rule repeat.none)
  next
    case (Cons c w)
    then have "[c] \<in> {[c] | c. plain c}" "w \<in> repeat {[c] | c. plain c}" by auto
    then have "[c] @ w \<in> repeat {[c] | c. plain c}" by (rule repeat.more)
    then show ?case by simp
  qed
qed

lemma matched_Plus_plain:
  "w \<in> matched (Plus notSpaceOrAt) \<longleftrightarrow> w \<noteq> [] \<and> (\<forall>c\<in>set w. plain c)"
proof -
  have m: "matched notSpaceOrAt = {[c] | c. plain c}"
    by (auto simp: notSpaceOrAt_def plain_def)
  show ?thesis
  proof
    assume "w \<in> matched (Plus notSpaceOrAt)"
    then obtain u v where "w = u @ v" "u \<in> {[c] | c. plain c}" "v \<in> repeat {[c] | c. plain c}"
      by (auto simp: Plus_def joined_def m)
    then show "w \<noteq> [] \<and> (\<forall>c\<in>set w. plain c)" by (auto simp: repeat_plain)
  next
    assume a: "w \<noteq> [] \<and> (\<forall>c\<in>set w. plain c)"
    then obtain c v where w: "w = c # v" by (cases w) auto
    with a have "[c] \<in> {[c] | c. plain c}" "v \<in> repeat {[c] | c. plain c}"
      by (auto simp: repeat_plain)
    then have "[c] @ v \<in> joined {[c] | c. plain c} (repeat {[c] | c. plain c})"
      unfolding joined_def by blast
    with w show "w \<in> matched (Plus notSpaceOrAt)" by (simp add: Plus_def m)
  qed
qed

lemma joined_iff: "w \<in> joined A B \<longleftrightarrow> (\<exists>u v. w = u @ v \<and> u \<in> A \<and> v \<in> B)"
  unfolding joined_def by blast

lemma joined_single: "w \<in> joined {[d]} B \<longleftrightarrow> (\<exists>v. w = d # v \<and> v \<in> B)"
  unfolding joined_def by auto

lemma matched_Lit: "{[c] | c. atomMatches (Lit d) c} = {[d]}"
  by auto

lemma matched_emailRegex:
  "v \<in> matched emailRegex \<longleftrightarrow>
     (\<exists>a b c. v = a @ 0x0040 # b @ 0x002E # c \<and>
        a \<in> matched (Plus notSpaceOrAt) \<and> b \<in> matched (Plus notSpaceOrAt) \<and>
        c \<in> matched (Plus notSpaceOrAt))"
proof -
  let ?P = "matched (Plus notSpaceOrAt)"
  have e: "matched emailRegex = joined ?P (joined {[0x0040]} (joined ?P (joined {[0x002E]} ?P)))"
    unfolding emailRegex_def by (simp only: matched.simps matched_Lit)
  show ?thesis
  proof
    assume "v \<in> matched emailRegex"
    then obtain a r1 where 1: "v = a @ r1" "a \<in> ?P"
        "r1 \<in> joined {[0x0040]} (joined ?P (joined {[0x002E]} ?P))"
      unfolding e joined_iff [of v] by blast
    from 1(3) obtain r2 where 2: "r1 = 0x0040 # r2" "r2 \<in> joined ?P (joined {[0x002E]} ?P)"
      unfolding joined_single by blast
    from 2(2) obtain b r3 where 3: "r2 = b @ r3" "b \<in> ?P" "r3 \<in> joined {[0x002E]} ?P"
      unfolding joined_iff [of r2] by blast
    from 3(3) obtain c where 4: "r3 = 0x002E # c" "c \<in> ?P"
      unfolding joined_single by blast
    from 1 2 3 4 have "v = a @ 0x0040 # b @ 0x002E # c \<and> a \<in> ?P \<and> b \<in> ?P \<and> c \<in> ?P"
      by simp
    then show "\<exists>a b c. v = a @ 0x0040 # b @ 0x002E # c \<and> a \<in> ?P \<and> b \<in> ?P \<and> c \<in> ?P"
      by blast
  next
    assume "\<exists>a b c. v = a @ 0x0040 # b @ 0x002E # c \<and> a \<in> ?P \<and> b \<in> ?P \<and> c \<in> ?P"
    then obtain a b c where v: "v = a @ 0x0040 # b @ 0x002E # c" and m: "a \<in> ?P" "b \<in> ?P" "c \<in> ?P"
      by blast
    have "0x002E # c \<in> joined {[0x002E]} ?P" using m(3) by (simp add: joined_single)
    with m(2) have "b @ 0x002E # c \<in> joined ?P (joined {[0x002E]} ?P)"
      unfolding joined_iff [of "b @ 0x002E # c"] by blast
    then have "0x0040 # b @ 0x002E # c \<in> joined {[0x0040]} (joined ?P (joined {[0x002E]} ?P))"
      by (simp add: joined_single)
    with m(1) have "a @ 0x0040 # b @ 0x002E # c \<in>
        joined ?P (joined {[0x0040]} (joined ?P (joined {[0x002E]} ?P)))"
      unfolding joined_iff [of "a @ 0x0040 # b @ 0x002E # c"] by blast
    then show "v \<in> matched emailRegex" by (simp only: e v)
  qed
qed

lemma test_emailRegex_shape:
  "test emailRegex v \<longleftrightarrow>
     (\<exists>a b c. v = a @ 0x0040 # b @ 0x002E # c \<and> a \<noteq> [] \<and> b \<noteq> [] \<and> c \<noteq> [] \<and>
        (\<forall>x\<in>set a \<union> set b \<union> set c. \<not> isWhiteSpace x \<and> x \<noteq> 0x0040))"
proof -
  have "test emailRegex v \<longleftrightarrow>
     (\<exists>a b c. v = a @ 0x0040 # b @ 0x002E # c \<and>
        (a \<noteq> [] \<and> (\<forall>x\<in>set a. plain x)) \<and> (b \<noteq> [] \<and> (\<forall>x\<in>set b. plain x)) \<and>
        (c \<noteq> [] \<and> (\<forall>x\<in>set c. plain x)))"
    by (simp only: test_matched matched_emailRegex matched_Plus_plain)
  also have "\<dots> \<longleftrightarrow>
     (\<exists>a b c. v = a @ 0x0040 # b @ 0x002E # c \<and> a \<noteq> [] \<and> b \<noteq> [] \<and> c \<noteq> [] \<and>
        (\<forall>x\<in>set a \<union> set b \<union> set c. plain x))"
    by (simp only: ball_Un conj_ac)
  finally show ?thesis by (simp only: plain_def)
qed

lemma test_email_trim: "test emailRegex v \<Longrightarrow> trim v \<noteq> []"
proof -
  assume "test emailRegex v"
  then obtain a b c where v: "v = a @ 0x0040 # b @ 0x002E # c" and a: "a \<noteq> []"
    and ok: "\<forall>x\<in>set a \<union> set b \<union> set c. \<not> isWhiteSpace x \<and> x \<noteq> 0x0040"
    unfolding test_emailRegex_shape by blast
  from a obtain x where "x \<in> set a" by (cases a) auto
  with ok v have "x \<in> set v" "\<not> isWhiteSpace x" by auto
  then show ?thesis by (auto simp: trim_empty_iff)
qed

lemma validateField_frame:
  "validateField f v s = s\<lparr>csrErrors := csrErrors (validateField f v s)\<rparr>"
  by (simp add: validateField_def Let_def)

lemma validateField_other:
  "csrFormData (validateField f v s) = csrFormData s"
  "csrSubmitSuccess (validateField f v s) = csrSubmitSuccess s"
  "isCSRSubmitting (validateField f v s) = isCSRSubmitting s"
  "timers (validateField f v s) = timers s"
  "clock (validateField f v s) = clock s"
  "formData (validateField f v s) = formData s"
  "isSubmitting (validateField f v s) = isSubmitting s"
  "submitSuccess (validateField f v s) = submitSuccess s"
  "isServer (validateField f v s) = isServer s"
  by (simp_all add: validateField_def Let_def)

lemma validateField_other_key:
  "g \<noteq> f \<Longrightarrow> csrErrors (validateField f v s) g = csrErrors s g"
  by (cases f) (auto simp: validateField_def Let_def)

lemma validateField_Name_key:
  "csrErrors (validateField Name v s) Name \<noteq> None \<longleftrightarrow> length (trim v) < 2"
  by (simp add: validateField_def Let_def)

lemma validateField_Email_key:
  "csrErrors (validateField Email v s) Email \<noteq> None \<longleftrightarrow> \<not> test emailRegex v"
  using test_email_trim [of v] by (auto simp: validateField_def Let_def)

lemma validateField_Subject_key:
  "csrErrors (validateField Subject v s) Subject \<noteq> None \<longleftrightarrow> v = []"
  by (simp add: validateField_def Let_def)

lemma validateField_Message_key:
  "csrErrors (validateField Message v s) Message \<noteq> None \<longleftrightarrow> length (trim v) < 10"
  by (simp add: validateField_def Let_def)

lemma keys_empty_iff: "keys errors = [] \<longleftrightarrow> (\<forall>f. errors f = None)"
proof
  assume "keys errors = []"
  then have a: "errors Name = None" "errors Email = None" "errors Subject = None" "errors Message = None"
    by (auto simp: keys_def split: if_splits)
  show "\<forall>f. errors f = None"
  proof
    fix f show "errors f = None" using a by (cases f) simp_all
  qed
next
  assume "\<forall>f. errors f = None"
  then show "keys errors = []" by (simp add: keys_def)
qed

lemma onCSRSubmit_revalidated:
  "onCSRSubmit s =
     (if keys (csrErrors (revalidated s)) \<noteq> [] then revalidated s
      else setTimeout CSRSubmitDone 1500 ((revalidated s)\<lparr>isCSRSubmitting := True\<rparr>))"
  by (simp add: onCSRSubmit_def revalidated_def Let_def validateField_other)

lemma revalidated_keys:
  "csrErrors (revalidated s) Name \<noteq> None \<longleftrightarrow> length (trim (name (csrFormData s))) < 2"
  "csrErrors (revalidated s) Email \<noteq> None \<longleftrightarrow> \<not> test emailRegex (email (csrFormData s))"
  "csrErrors (revalidated s) Subject \<noteq> None \<longleftrightarrow> subject (csrFormData s) = []"
  "csrErrors (revalidated s) Message \<noteq> None \<longleftrightarrow> length (trim (message (csrFormData s))) < 10"
  unfolding revalidated_def
  by (simp_all only: validateField_other_key field.distinct not_False_eq_True
        validateField_Name_key validateField_Email_key validateField_Subject_key validateField_Message_key)

lemma revalidated_frame: "revalidated s = s\<lparr>csrErrors := csrErrors (revalidated s)\<rparr>"
  unfolding revalidated_def
  by (simp add: validateField_def Let_def)

lemma runCallback_timers: "timers (runCallback cb s) = timers s"
  by (cases cb) (simp_all add: resetSSRForm_def resetCSRForm_def)

lemma fire_csrDone_keep: "csrDone s \<Longrightarrow> csrDone (fire p s)"
  by (cases "snd p") (simp_all add: fire_def csrDone_def resetSSRForm_def resetCSRForm_def)

lemma fire_csrDone_set: "snd p = CSRSubmitDone \<Longrightarrow> csrDone (fire p s)"
  by (simp add: fire_def csrDone_def resetCSRForm_def)

lemma fire_ssrDone_keep: "ssrDone s \<Longrightarrow> ssrDone (fire p s)"
  by (cases "snd p") (simp_all add: fire_def ssrDone_def resetSSRForm_def resetCSRForm_def)

lemma fire_ssrDone_set: "snd p = SSRSubmitDone \<Longrightarrow> ssrDone (fire p s)"
  by (simp add: fire_def ssrDone_def resetSSRForm_def)

lemma fold_fire_csrDone_keep: "csrDone s \<Longrightarrow> csrDone (fold fire ps s)"
  by (induction ps arbitrary: s) (simp_all add: fire_csrDone_keep)

lemma fold_fire_ssrDone_keep: "ssrDone s \<Longrightarrow> ssrDone (fold fire ps s)"
  by (induction ps arbitrary: s) (simp_all add: fire_ssrDone_keep)

lemma fold_fire_csrDone: "p \<in> set ps \<Longrightarrow> snd p = CSRSubmitDone \<Longrightarrow> csrDone (fold fire ps s)"
proof (induction ps arbitrary: s)
  case Nil
  then show ?case by simp
next
  case (Cons q ps)
  show ?case
  proof (cases "p = q")
    case True
    with Cons.prems have "csrDone (fire q s)" by (simp add: fire_csrDone_set)
    then show ?thesis by (simp add: fold_fire_csrDone_keep)
  next
    case False
    with Cons.prems have "p \<in> set ps" by simp
    with Cons show ?thesis by simp
  qed
qed

lemma fold_fire_ssrDone: "p \<in> set ps \<Longrightarrow> snd p = SSRSubmitDone \<Longrightarrow> ssrDone (fold fire ps s)"
proof (induction ps arbitrary: s)
  case Nil
  then show ?case by simp
next
  case (Cons q ps)
  show ?case
  proof (cases "p = q")
    case True
    with Cons.prems have "ssrDone (fire q s)" by (simp add: fire_ssrDone_set)
    then show ?thesis by (simp add: fold_fire_ssrDone_keep)
  next
    case False
    with Cons.prems have "p \<in> set ps" by simp
    with Cons show ?thesis by simp
  qed
qed

lemma advanceTo_csrDone:
  assumes "(d, CSRSubmitDone) \<in> set (timers s)" and "d \<le> t"
  shows "csrDone (advanceTo t s)"
proof -
  have "(d, CSRSubmitDone) \<in> set (sort_key fst (filter (\<lambda>p. fst p \<le> t) (timers s)))"
    using assms by simp
  then have "csrDone (fold fire (sort_key fst (filter (\<lambda>p. fst p \<le> t) (timers s))) s)"
    by (rule fold_fire_csrDone) simp
  then show ?thesis by (simp add: advanceTo_def Let_def csrDone_def)
qed

lemma advanceTo_ssrDone:
  assumes "(d, SSRSubmitDone) \<in> set (timers s)" and "d \<le> t"
  shows "ssrDone (advanceTo t s)"
proof -
  have "(d, SSRSubmitDone) \<in> set (sort_key fst (filter (\<lambda>p. fst p \<le> t) (timers s)))"
    using assms by simp
  then have "ssrDone (fold fire (sort_key fst (filter (\<lambda>p. fst p \<le> t) (timers s))) s)"
    by (rule fold_fire_ssrDone) simp
  then show ?thesis by (simp add: advanceTo_def Let_def ssrDone_def)
qed

lemmas contact_eval =
  js_def trim_def trimStart_def trimEnd_def isWhiteSpace_def test_def emailRegex_def Plus_def
  notSpaceOrAt_def newContactComponent_def emptyForm_def updateCSRName_def updateCSREmail_def
  updateCSRSubject_def updateCSRMessage_def validateField_def updateName_def Let_def

lemma invalidExample_form:
  "csrFormData invalidExample =
     \<lparr>name = js ''J'', email = js ''bad'', subject = [], message = js ''short'', newsletter = False\<rparr>"
  by (simp add: invalidExample_def contact_eval)

lemma validExample_form:
  "csrFormData validExample =
     \<lparr>name = js ''Jo'', email = js ''a@b.co'', subject = js ''General'',
      message = js ''Hello there!'', newsletter = False\<rparr>"
  by (simp add: validExample_def contact_eval)

subsection \<open>Field validation\<close>

text \<open>
  Claim C1. For every input string \<open>v\<close>, validating the name field of the validated
  form leaves an error entry for the key \<open>Name\<close> in the error map if and only if the
  trimmed length of \<open>v\<close> is less than 2; otherwise the entry is absent afterwards.
\<close>

theorem validate_name_fails_iff:
  "(Name \<in> dom (csrErrors (validateField Name v s))) \<longleftrightarrow> length (trim v) < 2"
  using validateField_Name_key [of v s] by (simp add: dom_def)

theorem validate_name_fails_iff_witness:
  "Name \<in> dom (csrErrors (validateField Name (js ''J'') validExample)) \<and>
   Name \<notin> dom (csrErrors (validateField Name (js '' Jo '') invalidExample))"
  using validate_name_fails_iff [of "js ''J''" validExample]
        validate_name_fails_iff [of "js '' Jo ''" invalidExample]
  by (simp add: js_def trim_def trimStart_def trimEnd_def isWhiteSpace_def)

text \<open>
  Claim C2. For every input string \<open>v\<close>, validating the email field of the validated
  form leaves an error entry for the key \<open>Email\<close> if and only if \<open>v\<close> does not match
  \<^verbatim>\<open>^[^\s@]+@[^\s@]+\.[^\s@]+$\<close>; otherwise the entry is absent afterwards. The emptiness
  test that the code runs first never decides: a string that matches starts with a code
  unit that is not white space.
\<close>

theorem validate_email_fails_iff:
  "(Email \<in> dom (csrErrors (validateField Email v s))) \<longleftrightarrow> \<not> test emailRegex v"
  using validateField_Email_key [of v s] by (simp add: dom_def)

theorem validate_email_fails_iff_witness:
  "Email \<in> dom (csrErrors (validateField Email (js ''bad'') validExample)) \<and>
   Email \<notin> dom (csrErrors (validateField Email (js ''a@b.co'') invalidExample))"
  using validate_email_fails_iff [of "js ''bad''" validExample]
        validate_email_fails_iff [of "js ''a@b.co''" invalidExample]
  by (simp add: js_def test_def emailRegex_def Plus_def notSpaceOrAt_def isWhiteSpace_def)

text \<open>
  Claim C3. For every input string \<open>v\<close>, validating the message field of the validated
  form leaves an error entry for the key \<open>Message\<close> if and only if the trimmed length
  of \<open>v\<close> is less than 10; otherwise the entry is absent afterwards.
\<close>

theorem validate_message_fails_iff:
  "(Message \<in> dom (csrErrors (validateField Message v s))) \<longleftrightarrow> length (trim v) < 10"
  using validateField_Message_key [of v s] by (simp add: dom_def)

theorem validate_message_fails_iff_witness:
  "Message \<in> dom (csrErrors (validateField Message (js ''short'') validExample)) \<and>
   Message \<notin> dom (csrErrors (validateField Message (js ''Hello there!'') invalidExample))"
  using validate_message_fails_iff [of "js ''short''" validExample]
        validate_message_fails_iff [of "js ''Hello there!''" invalidExample]
  by (simp add: js_def trim_def trimStart_def trimEnd_def isWhiteSpace_def)

subsection \<open>Submitting the validated form\<close>

text \<open>
  Claim C4. When at least one of name, email, subject and message violates its rule and
  \<open>csrSubmitSuccess\<close> is false, \<open>onCSRSubmit\<close> leaves \<open>csrSubmitSuccess\<close> false and
  the form data as they were: the submission stops after validating again, and the error
  map, which is then not empty, is the only part of the component that may differ.
\<close>

theorem onCSRSubmit_invalid_aborts:
  assumes invalid:
    "length (trim (name (csrFormData s))) < 2 \<or> \<not> test emailRegex (email (csrFormData s)) \<or>
     subject (csrFormData s) = [] \<or> length (trim (message (csrFormData s))) < 10"
  and before: "\<not> csrSubmitSuccess s"
  shows "\<not> csrSubmitSuccess (onCSRSubmit s) \<and>
         csrFormData (onCSRSubmit s) = csrFormData s \<and>
         onCSRSubmit s = s\<lparr>csrErrors := csrErrors (onCSRSubmit s)\<rparr> \<and>
         csrErrors (onCSRSubmit s) \<noteq> Map.empty"
proof -
  have "\<exists>f. csrErrors (revalidated s) f \<noteq> None"
    using invalid revalidated_keys [of s] by blast
  then have k: "keys (csrErrors (revalidated s)) \<noteq> []"
    by (simp add: keys_empty_iff)
  then have eq: "onCSRSubmit s = revalidated s"
    by (simp add: onCSRSubmit_revalidated)
  have ne: "csrErrors (revalidated s) \<noteq> Map.empty"
    using k keys_empty_iff [of "csrErrors (revalidated s)"] by auto
  have fr: "revalidated s = s\<lparr>csrErrors := csrErrors (revalidated s)\<rparr>"
    by (rule revalidated_frame)
  have "csrSubmitSuccess (revalidated s) = csrSubmitSuccess s"
    by (subst fr) simp
  moreover have "csrFormData (revalidated s) = csrFormData s"
    by (subst fr) simp
  ultimately show ?thesis using before eq ne fr by simp
qed

theorem onCSRSubmit_invalid_aborts_witness:
  "length (trim (name (csrFormData invalidExample))) < 2 \<and>
   \<not> csrSubmitSuccess invalidExample \<and>
   \<not> csrSubmitSuccess (onCSRSubmit invalidExample) \<and>
   csrFormData (onCSRSubmit invalidExample) =
     \<lparr>name = js ''J'', email = js ''bad'', subject = [], message = js ''short'', newsletter = False\<rparr>"
proof -
  have h1: "length (trim (name (csrFormData invalidExample))) < 2"
    by (simp add: invalidExample_form) (simp add: contact_eval)
  have h2: "\<not> csrSubmitSuccess invalidExample"
    by (simp add: invalidExample_def contact_eval)
  from h1 have h1': "length (trim (name (csrFormData invalidExample))) < 2 \<or>
     \<not> test emailRegex (email (csrFormData invalidExample)) \<or>
     subject (csrFormData invalidExample) = [] \<or>
     length (trim (message (csrFormData invalidExample))) < 10" by simp
  show ?thesis
    using h1 h2 onCSRSubmit_invalid_aborts [OF h1' h2] by (simp add: invalidExample_form)
qed

text \<open>
  Claim C5. When name, email, subject and message all satisfy their rules, \<open>onCSRSubmit\<close>
  flags the submission and schedules one timeout of 1500 ms; once the clock has reached
  that time, \<open>csrSubmitSuccess\<close> is true, every string field of the form data is empty,
  the newsletter flag is false and the error map is empty.
\<close>

theorem onCSRSubmit_valid_succeeds:
  assumes valid:
    "2 \<le> length (trim (name (csrFormData s)))" "test emailRegex (email (csrFormData s))"
    "subject (csrFormData s) \<noteq> []" "10 \<le> length (trim (message (csrFormData s)))"
  and later: "clock s + 1500 \<le> t"
  shows "isCSRSubmitting (onCSRSubmit s) \<and>
         timers (onCSRSubmit s) = timers s @ [(clock s + 1500, CSRSubmitDone)] \<and>
         csrSubmitSuccess (advanceTo t (onCSRSubmit s)) \<and>
         csrFormData (advanceTo t (onCSRSubmit s)) =
           \<lparr>name = [], email = [], subject = [], message = [], newsletter = False\<rparr> \<and>
         csrErrors (advanceTo t (onCSRSubmit s)) = Map.empty"
proof -
  have "\<forall>f. csrErrors (revalidated s) f = None"
  proof
    fix f show "csrErrors (revalidated s) f = None"
      using valid revalidated_keys [of s] by (cases f) auto
  qed
  then have "keys (csrErrors (revalidated s)) = []"
    by (simp add: keys_empty_iff)
  then have eq: "onCSRSubmit s = setTimeout CSRSubmitDone 1500 ((revalidated s)\<lparr>isCSRSubmitting := True\<rparr>)"
    by (simp add: onCSRSubmit_revalidated)
  have fr: "revalidated s = s\<lparr>csrErrors := csrErrors (revalidated s)\<rparr>"
    by (rule revalidated_frame)
  have tm: "timers (revalidated s) = timers s" by (subst fr) simp
  have cl: "clock (revalidated s) = clock s" by (subst fr) simp
  have sub: "isCSRSubmitting (onCSRSubmit s)"
    by (simp add: eq setTimeout_def)
  have sched: "timers (onCSRSubmit s) = timers s @ [(clock s + 1500, CSRSubmitDone)]"
    by (simp add: eq setTimeout_def tm cl)
  then have "(clock s + 1500, CSRSubmitDone) \<in> set (timers (onCSRSubmit s))" by simp
  then have "csrDone (advanceTo t (onCSRSubmit s))"
    using later by (rule advanceTo_csrDone)
  then show ?thesis using sub sched by (simp add: csrDone_def emptyForm_def)
qed

theorem onCSRSubmit_valid_succeeds_witness:
  "2 \<le> length (trim (name (csrFormData validExample))) \<and>
   test emailRegex (email (csrFormData validExample)) \<and>
   subject (csrFormData validExample) \<noteq> [] \<and>
   10 \<le> length (trim (message (csrFormData validExample))) \<and>
   clock validExample + 1500 \<le> 1500 \<and>
   csrSubmitSuccess (advanceTo 1500 (onCSRSubmit validExample)) \<and>
   csrFormData (advanceTo 1500 (onCSRSubmit validExample)) =
     \<lparr>name = [], email = [], subject = [], message = [], newsletter = False\<rparr> \<and>
   csrErrors (advanceTo 1500 (onCSRSubmit validExample)) = Map.empty"
proof -
  have h1: "2 \<le> length (trim (name (csrFormData validExample)))"
    by (simp add: validExample_form) (simp add: contact_eval)
  have h2: "test emailRegex (email (csrFormData validExample))"
    by (simp add: validExample_form) (simp add: contact_eval)
  have h3: "subject (csrFormData validExample) \<noteq> []"
    by (simp add: validExample_form) (simp add: contact_eval)
  have h4: "10 \<le> length (trim (message (csrFormData validExample)))"
    by (simp add: validExample_form) (simp add: contact_eval)
  have h5: "clock validExample + 1500 \<le> 1500"
    by (simp add: validExample_def contact_eval)
  show ?thesis
    using h1 h2 h3 h4 h5 onCSRSubmit_valid_succeeds [OF h1 h2 h3 h4 h5] by simp
qed

subsection \<open>Submitting the basic form\<close>

text \<open>
  Claim C9, as stated, promises for every state of the basic form that \<open>onSubmit\<close> flags
  \<open>isSubmitting\<close> and, after a fixed delay, reports success and resets the form. In the
  server branch of \<open>onSubmit\<close> none of the three happens that way: the flag stays false,
  nothing is scheduled, and the form keeps its contents.
\<close>

theorem onSubmit_always_succeeds_counterexample:
  "\<not> isSubmitting (onSubmit serverExample) \<and>
   timers (onSubmit serverExample) = [] \<and>
   submitSuccess (onSubmit serverExample) \<and>
   name (formData (advanceTo 2000 (onSubmit serverExample))) = js ''Jo''"
  by (simp add: serverExample_def onSubmit_def advanceTo_def contact_eval)

text \<open>
  Claim C9, amended. The basic form is never validated and no input is ever rejected. In
  the browser \<open>onSubmit\<close> flags \<open>isSubmitting\<close> and schedules one timeout of 2000 ms;
  once the clock has reached that time \<open>submitSuccess\<close> is true, \<open>isSubmitting\<close> is
  false and the form is reset. On the server \<open>onSubmit\<close> sets \<open>submitSuccess\<close> at once
  and changes nothing else.
\<close>

theorem onSubmit_never_rejects:
  "(isServer s \<longrightarrow> onSubmit s = s\<lparr>submitSuccess := True\<rparr>) \<and>
   (\<not> isServer s \<longrightarrow>
      isSubmitting (onSubmit s) \<and>
      timers (onSubmit s) = timers s @ [(clock s + 2000, SSRSubmitDone)] \<and>
      formData (onSubmit s) = formData s \<and>
      (\<forall>t\<ge>clock s + 2000.
         submitSuccess (advanceTo t (onSubmit s)) \<and>
         \<not> isSubmitting (advanceTo t (onSubmit s)) \<and>
         formData (advanceTo t (onSubmit s)) =
           \<lparr>name = [], email = [], subject = [], message = [], newsletter = False\<rparr>))"
proof (cases "isServer s")
  case True
  then show ?thesis by (simp add: onSubmit_def)
next
  case False
  have sched: "timers (onSubmit s) = timers s @ [(clock s + 2000, SSRSubmitDone)]"
    using False by (simp add: onSubmit_def setTimeout_def)
  have "\<And>t. clock s + 2000 \<le> t \<Longrightarrow> ssrDone (advanceTo t (onSubmit s))"
  proof -
    fix t assume "clock s + 2000 \<le> t"
    moreover have "(clock s + 2000, SSRSubmitDone) \<in> set (timers (onSubmit s))"
      by (simp add: sched)
    ultimately show "ssrDone (advanceTo t (onSubmit s))"
      using advanceTo_ssrDone by blast
  qed
  then show ?thesis
    using False sched by (simp add: ssrDone_def emptyForm_def) (simp add: onSubmit_def setTimeout_def)
qed

theorem onSubmit_never_rejects_witness:
  "isServer serverExample \<and> onSubmit serverExample = serverExample\<lparr>submitSuccess := True\<rparr> \<and>
   \<not> isServer browserExample \<and> clock browserExample + 2000 \<le> 2000 \<and>
   isSubmitting (onSubmit browserExample) \<and>
   submitSuccess (advanceTo 2000 (onSubmit browserExample)) \<and>
   formData (advanceTo 2000 (onSubmit browserExample)) =
     \<lparr>name = [], email = [], subject = [], message = [], newsletter = False\<rparr>"
proof -
  have h1: "isServer serverExample" by (simp add: serverExample_def contact_eval)
  have h2: "\<not> isServer browserExample" by (simp add: browserExample_def contact_eval)
  have h3: "clock browserExample + 2000 \<le> 2000" by (simp add: browserExample_def contact_eval)
  show ?thesis
    using h1 h2 h3 onSubmit_never_rejects [of serverExample] onSubmit_never_rejects [of browserExample]
    by simp
qed

section \<open>Properties of the hydration-tracking components\<close>

subsection \<open>Phases along an execution\<close>

lemma keepsOrHydrates_advances: "keepsOrHydrates p q \<Longrightarrow> advances p q"
  by (cases p) (auto simp: keepsOrHydrates_def advances_def)

lemma advances_refl: "advances p p"
  by (simp add: advances_def)

lemma advances_trans: "advances p q \<Longrightarrow> advances q r \<Longrightarrow> advances p r"
  by (simp add: advances_def)

lemma advances_Server: "advances Server p"
  by (simp add: advances_def)

lemma trace_above:
  assumes step: "\<And>e s. advances (ph s) (ph (step e s))"
  shows "x \<in> set (trace step evs s) \<Longrightarrow> advances (ph s) (ph x)"
proof (induction evs arbitrary: s)
  case Nil
  then show ?case by (simp add: advances_refl)
next
  case (Cons e es)
  from Cons.prems have "x = s \<or> x \<in> set (trace step es (step e s))" by simp
  then show ?case
  proof
    assume "x = s" then show ?thesis by (simp add: advances_refl)
  next
    assume "x \<in> set (trace step es (step e s))"
    then have "advances (ph (step e s)) (ph x)" by (rule Cons.IH)
    with step [of s e] show ?thesis by (rule advances_trans)
  qed
qed

lemma trace_sorted:
  assumes step: "\<And>e s. advances (ph s) (ph (step e s))"
  shows "sorted_wrt advances (map ph (trace step evs s))"
proof (induction evs arbitrary: s)
  case Nil
  then show ?case by simp
next
  case (Cons e es)
  have "\<forall>x\<in>set (trace step es (step e s)). advances (ph s) (ph x)"
  proof
    fix x assume "x \<in> set (trace step es (step e s))"
    then have "advances (ph (step e s)) (ph x)"
      using trace_above [of ph step x es "step e s"] step by blast
    with step [of s e] show "advances (ph s) (ph x)" by (rule advances_trans)
  qed
  with Cons.IH [of "step e s"] show ?case by (simp add: sorted_wrt_map)
qed

lemma execution_sorted:
  assumes step: "\<And>e s. advances (ph s) (ph (step e s))"
    and first: "ph s0 = Server" and attach: "ph s2 = ph s1"
  shows "sorted_wrt advances (map ph (s0 # s1 # trace step evs s2))"
proof -
  have tr: "sorted_wrt advances (map ph (trace step evs s2))"
    using step by (rule trace_sorted)
  have ab: "\<forall>x\<in>set (trace step evs s2). advances (ph s1) (ph x)"
  proof
    fix x assume "x \<in> set (trace step evs s2)"
    then have "advances (ph s2) (ph x)"
      using trace_above [of ph step x evs s2] step by blast
    then show "advances (ph s1) (ph x)" by (simp add: attach)
  qed
  show ?thesis using tr ab first by (simp add: advances_Server sorted_wrt_map)
qed

lemma base_simps [simp]:
  "hydrationPhase (setTimer k cb d s) = hydrationPhase s"
  "hydrationPhase (clearInterval i s) = hydrationPhase s"
  "hydrationPhase (clearIfSet h s) = hydrationPhase s"
  "hydrationPhase (markAsHydrated now s) = Hydrated"
  "isServer (setTimer k cb d s) = isServer s"
  "isServer (clearInterval i s) = isServer s"
  "isServer (clearIfSet h s) = isServer s"
  "isServer (markAsHydrated now s) = isServer s"
  by (simp_all add: setTimer_def clearInterval_def clearIfSet_def markAsHydrated_def Let_def split: option.splits)

lemma fireTimer_phase:
  assumes "\<And>cb s. keepsOrHydrates (hydrationPhase s) (hydrationPhase (run cb s))"
  shows "keepsOrHydrates (hydrationPhase s) (hydrationPhase (fireTimer run i s))"
proof (cases "find (\<lambda>t. timerId t = i) (timerTable s)")
  case None
  then show ?thesis by (simp add: fireTimer_def keepsOrHydrates_def)
next
  case (Some t)
  let ?s' = "case kind t of Timeout \<Rightarrow> clearInterval i s | Interval \<Rightarrow> s"
  have "hydrationPhase ?s' = hydrationPhase s" by (cases "kind t") simp_all
  with assms [of ?s' "callback t"] Some show ?thesis by (simp add: fireTimer_def)
qed

lemma Home_runCallback_phase:
  "keepsOrHydrates (hydrationPhase s) (hydrationPhase (Home_runCallback now cb s))"
  by (cases "(now, cb, s)" rule: Home_runCallback.cases) (simp_all add: keepsOrHydrates_def)

lemma Home_step_phase: "advances (hydrationPhase s) (hydrationPhase (Home_step e s))"
proof (rule keepsOrHydrates_advances, cases e)
  case (Fire i now rand)
  then show "keepsOrHydrates (hydrationPhase s) (hydrationPhase (Home_step e s))"
    by (simp add: fireTimer_phase Home_runCallback_phase)
qed (simp_all add: keepsOrHydrates_def)

lemma Home_execution_sorted:
  "sorted_wrt advances (map hydrationPhase (Home_execution server now evs))"
  unfolding Home_execution_def
  by (rule execution_sorted)
     (simp_all add: Home_step_phase newHomeComponent_def Home_attached_def ngAfterViewInit_def setTimeout_id_def)

lemma Products_runCallback_phase:
  "keepsOrHydrates (hydrationPhase s) (hydrationPhase (Products_runCallback rnd now rand cb s))"
  by (cases "(rnd, now, rand, cb, s)" rule: Products_runCallback.cases) (simp_all add: keepsOrHydrates_def Let_def)

lemma Products_step_phase: "advances (hydrationPhase s) (hydrationPhase (Products_step rnd e s))"
proof (rule keepsOrHydrates_advances, cases e)
  case (Fire i now rand)
  then show "keepsOrHydrates (hydrationPhase s) (hydrationPhase (Products_step rnd e s))"
    by (simp add: fireTimer_phase Products_runCallback_phase)
next
  case Destroy
  then show "keepsOrHydrates (hydrationPhase s) (hydrationPhase (Products_step rnd e s))"
    by (simp add: keepsOrHydrates_def Products_ngOnDestroy_def Let_def)
next
  case (User a)
  then show "keepsOrHydrates (hydrationPhase s) (hydrationPhase (Products_step rnd e s))"
    by (cases a) (simp_all add: keepsOrHydrates_def)
qed

lemma Products_execution_sorted:
  "sorted_wrt advances (map hydrationPhase (Products_execution rnd server now evs))"
  unfolding Products_execution_def
  by (rule execution_sorted)
     (simp_all add: Products_step_phase newProductsComponent_def Products_attached_def ngAfterViewInit_def setTimeout_id_def)

lemma Reports_runCallback_phase:
  "keepsOrHydrates (hydrationPhase s) (hydrationPhase (Reports_runCallback rnd now rand cb s))"
  by (cases "(rnd, now, rand, cb, s)" rule: Reports_runCallback.cases)
     (simp_all add: keepsOrHydrates_def Let_def initializeLiveMetrics_def updateLiveMetrics_def)

lemma Reports_step_phase: "advances (hydrationPhase s) (hydrationPhase (Reports_step rnd e s))"
proof (rule keepsOrHydrates_advances, cases e)
  case (Fire i now rand)
  then show "keepsOrHydrates (hydrationPhase s) (hydrationPhase (Reports_step rnd e s))"
    by (simp add: fireTimer_phase Reports_runCallback_phase)
next
  case Destroy
  then show "keepsOrHydrates (hydrationPhase s) (hydrationPhase (Reports_step rnd e s))"
    by (simp add: keepsOrHydrates_def Reports_ngOnDestroy_def Let_def)
next
  case (User a)
  then show "keepsOrHydrates (hydrationPhase s) (hydrationPhase (Reports_step rnd e s))"
    by (cases a) (simp_all add: keepsOrHydrates_def setTimeout_id_def)
qed

lemma Reports_execution_sorted:
  "sorted_wrt advances (map hydrationPhase (Reports_execution rnd server created now now' evs))"
  unfolding Reports_execution_def
  by (rule execution_sorted)
     (simp_all add: Reports_step_phase newReportsComponent_def Reports_attached_def ngAfterViewInit_def setTimeout_id_def)

lemma SsrDemo_runCallback_phase:
  "keepsOrHydrates (hydrationPhase s) (hydrationPhase (SsrDemo_runCallback rnd now rand cb s))"
  by (cases "(rnd, now, rand, cb, s)" rule: SsrDemo_runCallback.cases)
     (simp_all add: keepsOrHydrates_def Let_def SsrDemo_markAsHydrated_def activateAnimations_def
        simulateClientHydration_def loadingTick_def simulateError_def setTimeout_id_def)

lemma SsrDemo_step_phase: "advances (hydrationPhase s) (hydrationPhase (SsrDemo_step rnd e s))"
proof (rule keepsOrHydrates_advances, cases e)
  case (Fire i now rand)
  then show "keepsOrHydrates (hydrationPhase s) (hydrationPhase (SsrDemo_step rnd e s))"
    by (simp add: fireTimer_phase SsrDemo_runCallback_phase)
next
  case Destroy
  then show "keepsOrHydrates (hydrationPhase s) (hydrationPhase (SsrDemo_step rnd e s))"
    by (simp add: keepsOrHydrates_def)
next
  case (User a)
  then show "keepsOrHydrates (hydrationPhase s) (hydrationPhase (SsrDemo_step rnd e s))"
    by (cases a) (simp_all add: keepsOrHydrates_def setTimeout_id_def simulateError_def Let_def)
qed

lemma SsrDemo_execution_sorted:
  "sorted_wrt advances (map hydrationPhase (SsrDemo_execution rnd server created now evs))"
  unfolding SsrDemo_execution_def
  by (rule execution_sorted)
     (simp_all add: SsrDemo_step_phase newSsrDemoComponent_def SsrDemo_attached_def
        ngAfterViewInit_def setTimeout_id_def)

subsection \<open>The hydration timeout in the timer table\<close>

lemma find_in_table:
  "find (\<lambda>t. timerId t = i) xs = Some t \<Longrightarrow> t \<in> set xs \<and> timerId t = i"
  by (induction xs) (auto split: if_splits)

lemma find_distinct:
  "distinct (map timerId xs) \<Longrightarrow> t \<in> set xs \<Longrightarrow> find (\<lambda>u. timerId u = timerId t) xs = Some t"
  by (induction xs) (auto simp: rev_image_eqI)

lemma timersFresh_setTimer: "timersFresh s \<Longrightarrow> timersFresh (setTimer kd cb d s)"
  by (auto simp: timersFresh_def setTimer_def less_Suc_eq)

lemma timersFresh_clearInterval: "timersFresh s \<Longrightarrow> timersFresh (clearInterval i s)"
  by (auto simp: timersFresh_def clearInterval_def distinct_map_filter)

lemma timersFresh_clearIfSet: "timersFresh s \<Longrightarrow> timersFresh (clearIfSet h s)"
  by (simp add: clearIfSet_def timersFresh_clearInterval split: option.splits)

lemma timersFresh_markAsHydrated: "timersFresh s \<Longrightarrow> timersFresh (markAsHydrated now s)"
  by (simp add: timersFresh_def markAsHydrated_def Let_def)

lemma hydrationTimers_setTimer_Own:
  "hydrationTimers (setTimer kd (Own x) d s) = hydrationTimers s"
  by (simp add: hydrationTimers_def setTimer_def)

lemma hydrationTimers_clearInterval:
  "hydrationTimers (clearInterval i s) = filter (\<lambda>t. timerId t \<noteq> i) (hydrationTimers s)"
  by (simp add: hydrationTimers_def clearInterval_def conj_commute)

lemma hydrationTimers_markAsHydrated:
  "hydrationTimers (markAsHydrated now s) = hydrationTimers s"
  by (simp add: hydrationTimers_def markAsHydrated_def Let_def)

lemma hydratedAt_markAsHydrated: "hydratedAt (componentCreated s) now (markAsHydrated now s)"
  by (simp add: hydratedAt_def markAsHydrated_def Let_def)

lemma base_fields_clearInterval [simp]:
  "isHydrated (clearInterval i s) = isHydrated s"
  "hydrationTime (clearInterval i s) = hydrationTime s"
  "hydrationDuration (clearInterval i s) = hydrationDuration s"
  "componentCreated (clearInterval i s) = componentCreated s"
  "nextTimerId (clearInterval i s) = nextTimerId s"
  by (simp_all add: clearInterval_def)

lemma base_fields_setTimer [simp]:
  "isHydrated (setTimer kd cb d s) = isHydrated s"
  "hydrationTime (setTimer kd cb d s) = hydrationTime s"
  "hydrationDuration (setTimer kd cb d s) = hydrationDuration s"
  "componentCreated (setTimer kd cb d s) = componentCreated s"
  by (simp_all add: setTimer_def)

lemma base_fields_markAsHydrated [simp]:
  "componentCreated (markAsHydrated now s) = componentCreated s"
  "isHydrated (markAsHydrated now s)"
  by (simp_all add: markAsHydrated_def Let_def)

lemma hydratedAt_clearInterval [simp]:
  "hydratedAt c now (clearInterval i s) = hydratedAt c now s"
  by (simp add: hydratedAt_def)

lemma hydratedAt_setTimer [simp]:
  "hydratedAt c now (setTimer kd cb d s) = hydratedAt c now s"
  by (simp add: hydratedAt_def)

text \<open>Removing a timer other than the hydration timeout keeps the invariant.\<close>

lemma browserInv_clearInterval:
  assumes "browserInv k c s" and "awaiting k s \<longrightarrow> i \<noteq> k"
  shows "browserInv k c (clearInterval i s)"
proof -
  have fresh: "timersFresh (clearInterval i s)"
    using assms(1) by (simp add: browserInv_def timersFresh_clearInterval)
  show ?thesis
  proof (cases "awaiting k s")
    case True
    with assms(2) have "i \<noteq> k" by simp
    with True have "awaiting k (clearInterval i s)"
      by (simp add: awaiting_def hydrationTimers_clearInterval hydrationTimer_def)
    with assms(1) fresh show ?thesis by (simp add: browserInv_def)
  next
    case False
    with assms(1) have "hydrationTimers s = [] \<and> (\<exists>now. hydratedAt c now s)"
      by (simp add: browserInv_def)
    then have "hydrationTimers (clearInterval i s) = [] \<and> (\<exists>now. hydratedAt c now (clearInterval i s))"
      by (simp add: hydrationTimers_clearInterval)
    with assms(1) fresh show ?thesis by (simp add: browserInv_def)
  qed
qed

lemma browserInv_setTimer_Own:
  "browserInv k c s \<Longrightarrow> browserInv k c (setTimer kd (Own x) d s)"
  by (simp add: browserInv_def awaiting_def timersFresh_setTimer hydrationTimers_setTimer_Own)

lemma awaiting_timer_in_table:
  "awaiting k s \<Longrightarrow> hydrationTimer k \<in> set (timerTable s)"
proof -
  assume "awaiting k s"
  then have "hydrationTimer k \<in> set (hydrationTimers s)" by (simp add: awaiting_def)
  then show ?thesis by (simp add: hydrationTimers_def)
qed

lemma awaiting_find:
  assumes "timersFresh s" and "awaiting k s"
  shows "find (\<lambda>t. timerId t = k) (timerTable s) = Some (hydrationTimer k)"
proof -
  have "distinct (map timerId (timerTable s))" using assms(1) by (simp add: timersFresh_def)
  moreover have "hydrationTimer k \<in> set (timerTable s)"
    using assms(2) by (rule awaiting_timer_in_table)
  ultimately have "find (\<lambda>u. timerId u = timerId (hydrationTimer k :: 'a timer)) (timerTable s)
      = Some (hydrationTimer k)"
    by (rule find_distinct)
  then show ?thesis by (simp add: hydrationTimer_def)
qed

lemma fire_hydration_timer:
  assumes inv: "browserInv k c s" and aw: "awaiting k s"
    and mark: "\<And>s. run MarkAsHydrated s = post (markAsHydrated now s)"
    and post: "\<And>s. post s = s \<or> (\<exists>kd x d. post s = setTimer kd (Own x) d s)"
  shows "hydratedAt c now (fireTimer run k s) \<and> hydrationTimers (fireTimer run k s) = [] \<and>
         browserInv k c (fireTimer run k s)"
proof -
  have fresh: "timersFresh s" and c: "componentCreated s = c" and br: "\<not> isServer s"
    using inv by (simp_all add: browserInv_def)
  let ?m = "markAsHydrated now (clearInterval k s)"
  have f: "find (\<lambda>t. timerId t = k) (timerTable s) = Some (hydrationTimer k)"
    using fresh aw by (rule awaiting_find)
  then have eq: "fireTimer run k s = post ?m"
    by (simp add: fireTimer_def mark hydrationTimer_def)
  have h: "hydratedAt c now ?m"
    using hydratedAt_markAsHydrated [of "clearInterval k s" now] c by simp
  have t: "hydrationTimers ?m = []"
    using aw by (simp add: hydrationTimers_markAsHydrated hydrationTimers_clearInterval
        awaiting_def hydrationTimer_def)
  have fr: "timersFresh ?m"
    using fresh by (simp add: timersFresh_markAsHydrated timersFresh_clearInterval)
  have m: "hydratedAt c now ?m \<and> hydrationTimers ?m = [] \<and> browserInv k c ?m"
    using h t fr c br by (auto simp: browserInv_def)
  from post [of ?m] show ?thesis
  proof
    assume "post ?m = ?m"
    with m show ?thesis by (simp add: eq)
  next
    assume "\<exists>kd x d. post ?m = setTimer kd (Own x) d ?m"
    then obtain kd x d where p: "post ?m = setTimer kd (Own x) d ?m" by blast
    from m have "hydratedAt c now (setTimer kd (Own x) d ?m) \<and>
        hydrationTimers (setTimer kd (Own x) d ?m) = [] \<and>
        browserInv k c (setTimer kd (Own x) d ?m)"
      by (simp add: hydrationTimers_setTimer_Own browserInv_setTimer_Own)
    then show ?thesis by (simp add: eq p)
  qed
qed

lemma fireTimer_browserInv:
  assumes inv: "browserInv k c s" and q: "Q s"
    and mark: "\<And>s. run MarkAsHydrated s = post (markAsHydrated now s)"
    and post: "\<And>s. post s = s \<or> (\<exists>kd x d. post s = setTimer kd (Own x) d s)"
    and own: "\<And>x s. browserInv k c s \<Longrightarrow> Q s \<Longrightarrow> R x \<Longrightarrow>
                browserInv k c (run (Own x) s) \<and> Q (run (Own x) s)"
    and table: "\<And>t x. t \<in> set (timerTable s) \<Longrightarrow> callback t = Own x \<Longrightarrow> R x"
    and qclear: "\<And>i s. Q s \<Longrightarrow> Q (clearInterval i s)"
    and qmark: "\<And>s. Q s \<Longrightarrow> Q (run MarkAsHydrated s)"
  shows "browserInv k c (fireTimer run i s) \<and> Q (fireTimer run i s)"
proof (cases "find (\<lambda>t. timerId t = i) (timerTable s)")
  case None
  then show ?thesis using inv q by (simp add: fireTimer_def)
next
  case (Some t)
  then have tin: "t \<in> set (timerTable s)" and tid: "timerId t = i"
    using find_in_table by blast+
  have fresh: "timersFresh s" using inv by (simp add: browserInv_def)
  show ?thesis
  proof (cases "callback t")
    case MarkAsHydrated
    with tin have "t \<in> set (hydrationTimers s)" by (simp add: hydrationTimers_def)
    with inv have aw: "awaiting k s" by (auto simp: browserInv_def)
    with \<open>t \<in> set (hydrationTimers s)\<close> have "t = hydrationTimer k" by (simp add: awaiting_def)
    with tid have "i = k" by (simp add: hydrationTimer_def)
    have "browserInv k c (fireTimer run k s)"
      using fire_hydration_timer [of k c s run post now, OF inv aw mark post] by simp
    moreover have "fireTimer run k s = run MarkAsHydrated (clearInterval k s)"
      using awaiting_find [OF fresh aw] by (simp add: fireTimer_def hydrationTimer_def)
    ultimately show ?thesis using \<open>i = k\<close> q qclear qmark by simp
  next
    case (Own x)
    let ?s1 = "case kind t of Timeout \<Rightarrow> clearInterval i s | Interval \<Rightarrow> s"
    have ne: "awaiting k s \<longrightarrow> i \<noteq> k"
    proof
      assume aw: "awaiting k s"
      show "i \<noteq> k"
      proof
        assume "i = k"
        with Some awaiting_find [OF fresh aw] have "t = hydrationTimer k" by simp
        with Own show False by (simp add: hydrationTimer_def)
      qed
    qed
    have "R x" using tin Own by (rule table)
    moreover have "browserInv k c ?s1 \<and> Q ?s1"
      using inv q ne by (cases "kind t") (simp_all add: browserInv_clearInterval qclear)
    ultimately have "browserInv k c (run (Own x) ?s1) \<and> Q (run (Own x) ?s1)"
      using own by blast
    then show ?thesis using Some Own by (simp add: fireTimer_def)
  qed
qed

lemma fireTimer_serverInv:
  assumes inv: "serverInv s"
    and own: "\<And>x s. serverInv s \<Longrightarrow> serverInv (run (Own x) s)"
  shows "serverInv (fireTimer run i s)"
proof (cases "find (\<lambda>t. timerId t = i) (timerTable s)")
  case None
  then show ?thesis using inv by (simp add: fireTimer_def)
next
  case (Some t)
  then have tin: "t \<in> set (timerTable s)" using find_in_table by blast
  have "callback t \<noteq> MarkAsHydrated"
  proof
    assume "callback t = MarkAsHydrated"
    with tin have "t \<in> set (hydrationTimers s)" by (simp add: hydrationTimers_def)
    with inv show False by (simp add: serverInv_def)
  qed
  then obtain x where x: "callback t = Own x" by (cases "callback t") simp_all
  let ?s1 = "case kind t of Timeout \<Rightarrow> clearInterval i s | Interval \<Rightarrow> s"
  have "serverInv ?s1"
    using inv by (cases "kind t") (simp_all add: serverInv_def hydrationTimers_clearInterval)
  then have "serverInv (run (Own x) ?s1)" by (rule own)
  then show ?thesis using Some x by (simp add: fireTimer_def)
qed

lemma fold_inv:
  assumes "\<And>e s. P s \<Longrightarrow> P (step e s)" and "P s"
  shows "P (fold step evs s)"
  using assms(2) by (induction evs arbitrary: s) (simp_all add: assms(1))

subsection \<open>The invariants in each component\<close>

lemmas inv_defs =
  browserInv_def awaiting_def hydrationTimers_def timersFresh_def hydratedAt_def serverInv_def
  hydrationTimer_def

lemmas attach_defs =
  ngAfterViewInit_def setTimeout_id_def setInterval_id_def setTimer_def

paragraph \<open>Home\<close>

lemma Home_attached_browser: "browserInv 2 now (Home_attached False now) \<and> awaiting 2 (Home_attached False now)"
  by (simp add: Home_attached_def Home_ngOnInit_def newHomeComponent_def attach_defs inv_defs Let_def)

lemma Home_attached_server: "serverInv (Home_attached True now) \<and> timerTable (Home_attached True now) = []"
  by (simp add: Home_attached_def Home_ngOnInit_def newHomeComponent_def attach_defs inv_defs Let_def)

lemma Home_step_browserInv: "browserInv k c s \<Longrightarrow> browserInv k c (Home_step e s)"
proof (cases e)
  case (Fire i now rand)
  assume inv: "browserInv k c s"
  have "browserInv k c (fireTimer (Home_runCallback now) i s) \<and> True"
  proof (rule fireTimer_browserInv [where Q = "\<lambda>s. True" and R = "\<lambda>x. True" and now = now
        and post = "\<lambda>s. s"])
    show "browserInv k c s" by (rule inv)
  next
    fix x s assume "browserInv k c (s :: HomeComponent)"
    then show "browserInv k c (Home_runCallback now (Own x) s) \<and> True"
      by (cases x) (simp add: inv_defs)
  qed simp_all
  with Fire show ?thesis by simp
qed simp_all

lemma Home_step_serverInv: "serverInv s \<Longrightarrow> serverInv (Home_step e s)"
proof (cases e)
  case (Fire i now rand)
  assume inv: "serverInv s"
  have "serverInv (fireTimer (Home_runCallback now) i s)"
  proof (rule fireTimer_serverInv [OF inv])
    fix x s assume "serverInv (s :: HomeComponent)"
    then show "serverInv (Home_runCallback now (Own x) s)"
      by (cases x) (simp add: inv_defs)
  qed
  with Fire show ?thesis by simp
qed simp_all

lemma Home_browser_run: "browserInv 2 now (fold Home_step evs (Home_attached False now))"
  by (rule fold_inv [where P = "browserInv 2 now"]) (simp_all add: Home_step_browserInv Home_attached_browser)

lemma Home_server_run: "serverInv (fold Home_step evs (Home_attached True now))"
  by (rule fold_inv [where P = serverInv]) (simp_all add: Home_step_serverInv Home_attached_server)

paragraph \<open>Products\<close>

lemmas Products_init_defs =
  Products_attached_def Products_ngOnInit_def newProductsComponent_def loadProducts_def
  startRealTimeUpdates_def simulateUserActivity_def

lemma Products_attached_browser:
  "browserInv 6 now (Products_attached False now) \<and> awaiting 6 (Products_attached False now) \<and>
   Products_ids (Products_attached False now)"
  by (simp add: Products_init_defs attach_defs inv_defs Products_ids_def Let_def)

lemma Products_attached_server:
  "serverInv (Products_attached True now) \<and> timerTable (Products_attached True now) = []"
  by (simp add: Products_init_defs attach_defs inv_defs Let_def)

lemma Products_own_browserInv:
  "browserInv k c s \<Longrightarrow> Products_ids s \<Longrightarrow>
   browserInv k c (Products_runCallback rnd now rand (Own x) s) \<and>
   Products_ids (Products_runCallback rnd now rand (Own x) s)"
  by (cases x) (simp_all add: inv_defs Products_ids_def Let_def)

lemma Products_ids_clearInterval: "Products_ids s \<Longrightarrow> Products_ids (clearInterval i s)"
  by (simp add: Products_ids_def clearInterval_def)

lemma Products_ids_markAsHydrated: "Products_ids s \<Longrightarrow> Products_ids (markAsHydrated now s)"
  by (simp add: Products_ids_def markAsHydrated_def Let_def)

lemma Products_step_browserInv:
  assumes "browserInv 6 c s \<and> Products_ids s"
  shows "browserInv 6 c (Products_step rnd e s) \<and> Products_ids (Products_step rnd e s)"
proof (cases e)
  case (Fire i now rand)
  have "browserInv 6 c (fireTimer (Products_runCallback rnd now rand) i s) \<and>
        Products_ids (fireTimer (Products_runCallback rnd now rand) i s)"
    by (rule fireTimer_browserInv [where Q = Products_ids and R = "\<lambda>x. True" and now = now
          and post = "\<lambda>s. s"])
       (use assms in \<open>simp_all add: Products_own_browserInv Products_ids_clearInterval
          Products_ids_markAsHydrated\<close>)
  with Fire show ?thesis by simp
next
  case Destroy
  have a: "Products_ngOnDestroy s = clearInterval 3 (clearInterval 2 s)"
    using assms by (simp add: Products_ngOnDestroy_def Products_ids_def clearIfSet_def Let_def clearInterval_def)
  have "browserInv 6 c (clearInterval 2 s)"
    using assms by (simp add: browserInv_clearInterval)
  then have "browserInv 6 c (clearInterval 3 (clearInterval 2 s))"
    by (simp add: browserInv_clearInterval)
  with a Destroy assms show ?thesis by (simp add: Products_ids_clearInterval)
next
  case (User a)
  with assms show ?thesis by (cases a) (simp_all add: inv_defs Products_ids_def)
qed

lemma Products_step_serverInv: "serverInv s \<Longrightarrow> serverInv (Products_step rnd e s)"
proof (cases e)
  case (Fire i now rand)
  assume inv: "serverInv s"
  have "serverInv (fireTimer (Products_runCallback rnd now rand) i s)"
  proof (rule fireTimer_serverInv [OF inv])
    fix x s assume "serverInv (s :: ProductsComponent)"
    then show "serverInv (Products_runCallback rnd now rand (Own x) s)"
      by (cases x) (simp_all add: inv_defs Let_def)
  qed
  with Fire show ?thesis by simp
next
  case Destroy
  assume "serverInv s"
  then show ?thesis using Destroy
    by (simp add: Products_ngOnDestroy_def clearIfSet_def Let_def serverInv_def
        hydrationTimers_clearInterval split: option.splits)
next
  case (User a)
  assume "serverInv s"
  then show ?thesis using User by (cases a) (simp_all add: inv_defs)
qed

lemma Products_browser_run:
  "browserInv 6 now (fold (Products_step rnd) evs (Products_attached False now))"
proof -
  have "browserInv 6 now (fold (Products_step rnd) evs (Products_attached False now)) \<and>
        Products_ids (fold (Products_step rnd) evs (Products_attached False now))"
  proof (rule fold_inv [where P = "\<lambda>s. browserInv 6 now s \<and> Products_ids s"])
    fix e s assume "browserInv 6 now s \<and> Products_ids s"
    then show "browserInv 6 now (Products_step rnd e s) \<and> Products_ids (Products_step rnd e s)"
      by (rule Products_step_browserInv)
  qed (simp add: Products_attached_browser)
  then show ?thesis by simp
qed

lemma Products_server_run: "serverInv (fold (Products_step rnd) evs (Products_attached True now))"
  by (rule fold_inv [where P = serverInv])
     (simp_all add: Products_step_serverInv Products_attached_server)

paragraph \<open>Reports\<close>

lemmas Reports_init_defs =
  Reports_attached_def Reports_ngOnInit_def newReportsComponent_def loadInitialData_def

lemma Reports_attached_browser:
  "browserInv 5 c (Reports_attached False c now now') \<and>
   awaiting 5 (Reports_attached False c now now') \<and>
   Reports_ids (Reports_attached False c now now')"
  by (simp add: Reports_init_defs attach_defs inv_defs Reports_ids_def Let_def)

lemma Reports_attached_server:
  "serverInv (Reports_attached True c now now') \<and> timerTable (Reports_attached True c now now') = []"
  by (simp add: Reports_init_defs attach_defs inv_defs Let_def)

lemma Reports_own_browserInv:
  "browserInv k c s \<Longrightarrow> Reports_ids s \<Longrightarrow>
   browserInv k c (Reports_runCallback rnd now rand (Own x) s) \<and>
   Reports_ids (Reports_runCallback rnd now rand (Own x) s)"
  by (cases x)
     (simp_all add: inv_defs Reports_ids_def Let_def initializeLiveMetrics_def updateLiveMetrics_def)

lemma Reports_ids_clearInterval: "Reports_ids s \<Longrightarrow> Reports_ids (clearInterval i s)"
  by (simp add: Reports_ids_def clearInterval_def)

lemma Reports_ids_markAsHydrated: "Reports_ids s \<Longrightarrow> Reports_ids (markAsHydrated now s)"
  by (simp add: Reports_ids_def markAsHydrated_def Let_def)

lemma Reports_step_browserInv:
  assumes "browserInv 5 c s \<and> Reports_ids s"
  shows "browserInv 5 c (Reports_step rnd e s) \<and> Reports_ids (Reports_step rnd e s)"
proof (cases e)
  case (Fire i now rand)
  have "browserInv 5 c (fireTimer (Reports_runCallback rnd now rand) i s) \<and>
        Reports_ids (fireTimer (Reports_runCallback rnd now rand) i s)"
    by (rule fireTimer_browserInv [where Q = Reports_ids and R = "\<lambda>x. True" and now = now
          and post = "\<lambda>s. s"])
       (use assms in \<open>simp_all add: Reports_own_browserInv Reports_ids_clearInterval
          Reports_ids_markAsHydrated\<close>)
  with Fire show ?thesis by simp
next
  case Destroy
  have a: "Reports_ngOnDestroy s = clearInterval 3 (clearInterval 2 s)"
    using assms by (simp add: Reports_ngOnDestroy_def Reports_ids_def clearIfSet_def Let_def clearInterval_def)
  have "browserInv 5 c (clearInterval 2 s)"
    using assms by (simp add: browserInv_clearInterval)
  then have "browserInv 5 c (clearInterval 3 (clearInterval 2 s))"
    by (simp add: browserInv_clearInterval)
  with a Destroy assms show ?thesis by (simp add: Reports_ids_clearInterval)
next
  case (User a)
  show ?thesis
  proof (cases a)
    case (SetActiveTab tab)
    with User assms show ?thesis by (simp add: inv_defs Reports_ids_def)
  next
    case (RefreshData now)
    let ?s1 = "s\<lparr>loading := True, startTime := now\<rparr>"
    have "browserInv 5 c ?s1 \<and> Reports_ids ?s1" using assms by (simp add: inv_defs Reports_ids_def)
    then have "browserInv 5 c (setTimer Timeout (Own ReportsReloaded) 500 ?s1) \<and>
               Reports_ids (setTimer Timeout (Own ReportsReloaded) 500 ?s1)"
      by (simp add: browserInv_setTimer_Own) (simp add: Reports_ids_def setTimer_def)
    with User RefreshData show ?thesis by (simp add: setTimeout_id_def)
  qed
qed

lemma Reports_step_serverInv: "serverInv s \<Longrightarrow> serverInv (Reports_step rnd e s)"
proof (cases e)
  case (Fire i now rand)
  assume inv: "serverInv s"
  have "serverInv (fireTimer (Reports_runCallback rnd now rand) i s)"
  proof (rule fireTimer_serverInv [OF inv])
    fix x s assume "serverInv (s :: ReportsComponent)"
    then show "serverInv (Reports_runCallback rnd now rand (Own x) s)"
      by (cases x) (simp_all add: inv_defs Let_def initializeLiveMetrics_def updateLiveMetrics_def)
  qed
  with Fire show ?thesis by simp
next
  case Destroy
  assume "serverInv s"
  then show ?thesis using Destroy
    by (simp add: Reports_ngOnDestroy_def clearIfSet_def Let_def serverInv_def
        hydrationTimers_clearInterval split: option.splits)
next
  case (User a)
  assume "serverInv s"
  then show ?thesis using User
    by (cases a) (simp_all add: inv_defs setTimeout_id_def setTimer_def)
qed

lemma Reports_browser_run:
  "browserInv 5 c (fold (Reports_step rnd) evs (Reports_attached False c now now'))"
proof -
  have "browserInv 5 c (fold (Reports_step rnd) evs (Reports_attached False c now now')) \<and>
        Reports_ids (fold (Reports_step rnd) evs (Reports_attached False c now now'))"
  proof (rule fold_inv [where P = "\<lambda>s. browserInv 5 c s \<and> Reports_ids s"])
    fix e s assume "browserInv 5 c s \<and> Reports_ids s"
    then show "browserInv 5 c (Reports_step rnd e s) \<and> Reports_ids (Reports_step rnd e s)"
      by (rule Reports_step_browserInv)
  qed (simp add: Reports_attached_browser)
  then show ?thesis by simp
qed

lemma Reports_server_run:
  "serverInv (fold (Reports_step rnd) evs (Reports_attached True c now now'))"
  by (rule fold_inv [where P = serverInv])
     (simp_all add: Reports_step_serverInv Reports_attached_server)

paragraph \<open>SSR demo\<close>

lemmas SsrDemo_init_defs =
  SsrDemo_attached_def SsrDemo_ngOnInit_def newSsrDemoComponent_def initializeComponent_def
  simulateLoading_def simulateServerRendering_def setupErrorHandling_def

lemma SsrDemo_attached_browser:
  "browserInv 4 c (SsrDemo_attached False c now) \<and> awaiting 4 (SsrDemo_attached False c now) \<and>
   loadingTicksOf 1 (SsrDemo_attached False c now)"
  by (simp add: SsrDemo_init_defs attach_defs inv_defs loadingTicksOf_def Let_def)

lemma SsrDemo_attached_server: "serverInv (SsrDemo_attached True c now)"
  by (simp add: SsrDemo_init_defs attach_defs inv_defs Let_def)

lemma loadingTicksOf_clearInterval: "loadingTicksOf n s \<Longrightarrow> loadingTicksOf n (clearInterval i s)"
  by (auto simp: loadingTicksOf_def clearInterval_def)

lemma loadingTicksOf_setTimer:
  "loadingTicksOf n s \<Longrightarrow> (\<forall>m. x \<noteq> LoadingTick m) \<Longrightarrow> loadingTicksOf n (setTimer kd (Own x) d s)"
  by (auto simp: loadingTicksOf_def setTimer_def)

lemma loadingTicksOf_markAsHydrated: "loadingTicksOf n s \<Longrightarrow> loadingTicksOf n (markAsHydrated now s)"
  by (simp add: loadingTicksOf_def markAsHydrated_def Let_def)

lemma SsrDemo_frame [simp]:
  "browserInv k c (s\<lparr>serverRenderTime := a1\<rparr>) = browserInv k c s"
  "browserInv k c (s\<lparr>clientHydrationTime := a2\<rparr>) = browserInv k c s"
  "browserInv k c (s\<lparr>totalLoadTime := a3\<rparr>) = browserInv k c s"
  "browserInv k c (s\<lparr>animationStates := a4\<rparr>) = browserInv k c s"
  "browserInv k c (s\<lparr>hasApex := a5\<rparr>) = browserInv k c s"
  "browserInv k c (s\<lparr>errorState := a6\<rparr>) = browserInv k c s"
  "browserInv k c (s\<lparr>isLoading := a7\<rparr>) = browserInv k c s"
  "browserInv k c (s\<lparr>loadingProgress := a8\<rparr>) = browserInv k c s"
  "browserInv k c (s\<lparr>loadingMessage := a9\<rparr>) = browserInv k c s"
  "browserInv k c (s\<lparr>SsrDemoComponent.activeTab := b1\<rparr>) = browserInv k c s"
  "browserInv k c (s\<lparr>showAnimations := b2\<rparr>) = browserInv k c s"
  "browserInv k c (s\<lparr>showGraphs := b3\<rparr>) = browserInv k c s"
  "browserInv k c (s\<lparr>showErrors := b4\<rparr>) = browserInv k c s"
  "browserInv k c (s\<lparr>progress := b5\<rparr>) = browserInv k c s"
  by (simp_all add: inv_defs)

lemma SsrDemo_frame_ticks [simp]:
  "loadingTicksOf n (s\<lparr>serverRenderTime := a1\<rparr>) = loadingTicksOf n s"
  "loadingTicksOf n (s\<lparr>clientHydrationTime := a2\<rparr>) = loadingTicksOf n s"
  "loadingTicksOf n (s\<lparr>totalLoadTime := a3\<rparr>) = loadingTicksOf n s"
  "loadingTicksOf n (s\<lparr>animationStates := a4\<rparr>) = loadingTicksOf n s"
  "loadingTicksOf n (s\<lparr>hasApex := a5\<rparr>) = loadingTicksOf n s"
  "loadingTicksOf n (s\<lparr>errorState := a6\<rparr>) = loadingTicksOf n s"
  "loadingTicksOf n (s\<lparr>isLoading := a7\<rparr>) = loadingTicksOf n s"
  "loadingTicksOf n (s\<lparr>loadingProgress := a8\<rparr>) = loadingTicksOf n s"
  "loadingTicksOf n (s\<lparr>loadingMessage := a9\<rparr>) = loadingTicksOf n s"
  "loadingTicksOf n (s\<lparr>SsrDemoComponent.activeTab := b1\<rparr>) = loadingTicksOf n s"
  "loadingTicksOf n (s\<lparr>showAnimations := b2\<rparr>) = loadingTicksOf n s"
  "loadingTicksOf n (s\<lparr>showGraphs := b3\<rparr>) = loadingTicksOf n s"
  "loadingTicksOf n (s\<lparr>showErrors := b4\<rparr>) = loadingTicksOf n s"
  "loadingTicksOf n (s\<lparr>progress := b5\<rparr>) = loadingTicksOf n s"
  by (simp_all add: loadingTicksOf_def)

lemma SsrDemo_frame_server [simp]:
  "serverInv (s\<lparr>serverRenderTime := a1\<rparr>) = serverInv s"
  "serverInv (s\<lparr>clientHydrationTime := a2\<rparr>) = serverInv s"
  "serverInv (s\<lparr>totalLoadTime := a3\<rparr>) = serverInv s"
  "serverInv (s\<lparr>animationStates := a4\<rparr>) = serverInv s"
  "serverInv (s\<lparr>hasApex := a5\<rparr>) = serverInv s"
  "serverInv (s\<lparr>errorState := a6\<rparr>) = serverInv s"
  "serverInv (s\<lparr>isLoading := a7\<rparr>) = serverInv s"
  "serverInv (s\<lparr>loadingProgress := a8\<rparr>) = serverInv s"
  "serverInv (s\<lparr>loadingMessage := a9\<rparr>) = serverInv s"
  "serverInv (s\<lparr>SsrDemoComponent.activeTab := b1\<rparr>) = serverInv s"
  "serverInv (s\<lparr>showAnimations := b2\<rparr>) = serverInv s"
  "serverInv (s\<lparr>showGraphs := b3\<rparr>) = serverInv s"
  "serverInv (s\<lparr>showErrors := b4\<rparr>) = serverInv s"
  "serverInv (s\<lparr>progress := b5\<rparr>) = serverInv s"
  by (simp_all add: inv_defs)

lemma serverInv_setTimer_Own: "serverInv s \<Longrightarrow> serverInv (setTimer kd (Own x) d s)"
  by (simp add: serverInv_def hydrationTimers_setTimer_Own)

lemma serverInv_clearInterval: "serverInv s \<Longrightarrow> serverInv (clearInterval i s)"
  by (simp add: serverInv_def hydrationTimers_clearInterval)

lemma SsrDemo_inv_setTimer:
  "SsrDemo_inv c s \<Longrightarrow> (\<forall>m. x \<noteq> LoadingTick m) \<Longrightarrow> SsrDemo_inv c (setTimer kd (Own x) d s)"
  by (simp add: SsrDemo_inv_def browserInv_setTimer_Own loadingTicksOf_setTimer)

lemma SsrDemo_inv_frame [simp]:
  "SsrDemo_inv c (s\<lparr>serverRenderTime := a1\<rparr>) = SsrDemo_inv c s"
  "SsrDemo_inv c (s\<lparr>clientHydrationTime := a2\<rparr>) = SsrDemo_inv c s"
  "SsrDemo_inv c (s\<lparr>totalLoadTime := a3\<rparr>) = SsrDemo_inv c s"
  "SsrDemo_inv c (s\<lparr>animationStates := a4\<rparr>) = SsrDemo_inv c s"
  "SsrDemo_inv c (s\<lparr>hasApex := a5\<rparr>) = SsrDemo_inv c s"
  "SsrDemo_inv c (s\<lparr>errorState := a6\<rparr>) = SsrDemo_inv c s"
  "SsrDemo_inv c (s\<lparr>isLoading := a7\<rparr>) = SsrDemo_inv c s"
  "SsrDemo_inv c (s\<lparr>loadingProgress := a8\<rparr>) = SsrDemo_inv c s"
  "SsrDemo_inv c (s\<lparr>loadingMessage := a9\<rparr>) = SsrDemo_inv c s"
  "SsrDemo_inv c (s\<lparr>SsrDemoComponent.activeTab := b1\<rparr>) = SsrDemo_inv c s"
  "SsrDemo_inv c (s\<lparr>showAnimations := b2\<rparr>) = SsrDemo_inv c s"
  "SsrDemo_inv c (s\<lparr>showGraphs := b3\<rparr>) = SsrDemo_inv c s"
  "SsrDemo_inv c (s\<lparr>showErrors := b4\<rparr>) = SsrDemo_inv c s"
  "SsrDemo_inv c (s\<lparr>progress := b5\<rparr>) = SsrDemo_inv c s"
  by (simp_all add: SsrDemo_inv_def)

lemma SsrDemo_inv_activateAnimations: "SsrDemo_inv c s \<Longrightarrow> SsrDemo_inv c (activateAnimations s)"
  by (simp add: activateAnimations_def setTimeout_id_def Let_def SsrDemo_inv_setTimer)

lemma SsrDemo_inv_simulateError: "SsrDemo_inv c (simulateError rnd r s) = SsrDemo_inv c s"
  by (simp add: simulateError_def Let_def)

lemma SsrDemo_inv_loadingTick: "SsrDemo_inv c s \<Longrightarrow> SsrDemo_inv c (loadingTick rnd r 1 s)"
proof -
  assume inv: "SsrDemo_inv c s"
  have "\<And>p. SsrDemo_inv c (clearInterval 1 (s\<lparr>progress := p\<rparr>))"
  proof -
    fix p
    have a: "browserInv 4 c (s\<lparr>progress := p\<rparr>)" "loadingTicksOf 1 (s\<lparr>progress := p\<rparr>)"
      using inv by (simp_all add: SsrDemo_inv_def)
    from a(1) have "browserInv 4 c (clearInterval 1 (s\<lparr>progress := p\<rparr>))"
      by (rule browserInv_clearInterval) simp
    moreover from a(2) have "loadingTicksOf 1 (clearInterval 1 (s\<lparr>progress := p\<rparr>))"
      by (rule loadingTicksOf_clearInterval)
    ultimately show "SsrDemo_inv c (clearInterval 1 (s\<lparr>progress := p\<rparr>))"
      by (simp add: SsrDemo_inv_def)
  qed
  with inv show ?thesis by (simp add: loadingTick_def Let_def)
qed

lemma SsrDemo_own_inv:
  assumes "SsrDemo_inv c s" and "\<forall>m. x = LoadingTick m \<longrightarrow> m = 1"
  shows "SsrDemo_inv c (SsrDemo_runCallback rnd now rand (Own x) s)"
proof (cases x)
  case (ServerRendered start)
  have "SsrDemo_inv c (activateAnimations (s\<lparr>serverRenderTime := now - start\<rparr>))"
    using assms(1) by (simp add: SsrDemo_inv_activateAnimations)
  then show ?thesis using ServerRendered
    by (simp add: Let_def simulateClientHydration_def setTimeout_id_def SsrDemo_inv_setTimer)
next
  case (LoadingTick m)
  with assms(2) have "m = 1" by simp
  with LoadingTick assms(1) show ?thesis
    using SsrDemo_inv_loadingTick [of c s rnd "rand 0"] by simp
qed (use assms(1) in \<open>simp_all add: Let_def SsrDemo_inv_activateAnimations SsrDemo_inv_simulateError\<close>)

lemma SsrDemo_mark_inv:
  "SsrDemo_inv c s \<Longrightarrow> SsrDemo_inv c (setTimer kd (Own StartAnimations) d s)"
  by (simp add: SsrDemo_inv_setTimer)

lemma SsrDemo_mark_post:
  "SsrDemo_runCallback rnd now rand MarkAsHydrated s =
     (\<lambda>s. if SsrDemoComponent.activeTab s = ''animations'' \<and> showAnimations s
          then setTimer Timeout (Own StartAnimations) 500 s else s) (markAsHydrated now s)"
  by (simp add: SsrDemo_markAsHydrated_def Let_def setTimeout_id_def)

lemma SsrDemo_step_inv:
  assumes inv: "SsrDemo_inv c s"
  shows "SsrDemo_inv c (SsrDemo_step rnd e s)"
proof (cases e)
  case (Fire i now rand)
  let ?post = "\<lambda>s. if SsrDemoComponent.activeTab s = ''animations'' \<and> showAnimations s
          then setTimer Timeout (Own StartAnimations) 500 s else s"
  have "browserInv 4 c (fireTimer (SsrDemo_runCallback rnd now rand) i s) \<and>
        loadingTicksOf 1 (fireTimer (SsrDemo_runCallback rnd now rand) i s)"
  proof (rule fireTimer_browserInv [where Q = "loadingTicksOf 1"
        and R = "\<lambda>x. \<forall>m. x = LoadingTick m \<longrightarrow> m = 1" and now = now and post = ?post])
    show "browserInv 4 c s" "loadingTicksOf 1 s" using inv by (simp_all add: SsrDemo_inv_def)
  next
    fix s show "SsrDemo_runCallback rnd now rand MarkAsHydrated s = ?post (markAsHydrated now s)"
      by (rule SsrDemo_mark_post)
  next
    fix s :: SsrDemoComponent
    show "?post s = s \<or> (\<exists>kd x d. ?post s = setTimer kd (Own x) d s)" by auto
  next
    fix x and s :: SsrDemoComponent
    assume "browserInv 4 c s" "loadingTicksOf 1 s" "\<forall>m. x = LoadingTick m \<longrightarrow> m = 1"
    then have "SsrDemo_inv c (SsrDemo_runCallback rnd now rand (Own x) s)"
      using SsrDemo_own_inv [of c s x rnd now rand] by (simp add: SsrDemo_inv_def)
    then show "browserInv 4 c (SsrDemo_runCallback rnd now rand (Own x) s) \<and>
               loadingTicksOf 1 (SsrDemo_runCallback rnd now rand (Own x) s)"
      by (simp add: SsrDemo_inv_def)
  next
    fix t x assume "t \<in> set (timerTable s)" "callback t = Own x"
    with inv show "\<forall>m. x = LoadingTick m \<longrightarrow> m = 1"
      by (auto simp: SsrDemo_inv_def loadingTicksOf_def)
  next
    fix i and s :: SsrDemoComponent assume "loadingTicksOf 1 s"
    then show "loadingTicksOf 1 (clearInterval i s)" by (rule loadingTicksOf_clearInterval)
  next
    fix s :: SsrDemoComponent assume "loadingTicksOf 1 s"
    then show "loadingTicksOf 1 (SsrDemo_runCallback rnd now rand MarkAsHydrated s)"
      by (simp add: SsrDemo_markAsHydrated_def Let_def setTimeout_id_def
          loadingTicksOf_markAsHydrated loadingTicksOf_setTimer)
  qed
  with Fire show ?thesis by (simp add: SsrDemo_inv_def)
next
  case Destroy
  with inv show ?thesis by simp
next
  case (User a)
  with inv show ?thesis
    by (cases a)
       (simp_all add: Let_def setTimeout_id_def SsrDemo_inv_setTimer SsrDemo_inv_simulateError)
qed

lemma serverInv_activateAnimations: "serverInv s \<Longrightarrow> serverInv (activateAnimations s)"
  by (simp add: activateAnimations_def setTimeout_id_def Let_def serverInv_setTimer_Own)

lemma serverInv_simulateError: "serverInv (simulateError rnd r s) = serverInv s"
  by (simp add: simulateError_def Let_def)

lemma serverInv_loadingTick: "serverInv s \<Longrightarrow> serverInv (loadingTick rnd r n s)"
proof -
  assume inv: "serverInv s"
  have "\<And>p. serverInv (clearInterval n (s\<lparr>progress := p\<rparr>))"
    using inv by (simp add: serverInv_clearInterval)
  with inv show ?thesis by (simp add: loadingTick_def Let_def)
qed

lemma SsrDemo_step_serverInv: "serverInv s \<Longrightarrow> serverInv (SsrDemo_step rnd e s)"
proof (cases e)
  case (Fire i now rand)
  assume inv: "serverInv s"
  have "serverInv (fireTimer (SsrDemo_runCallback rnd now rand) i s)"
  proof (rule fireTimer_serverInv [OF inv])
    fix x s assume s: "serverInv (s :: SsrDemoComponent)"
    show "serverInv (SsrDemo_runCallback rnd now rand (Own x) s)"
    proof (cases x)
      case (ServerRendered start)
      have "serverInv (activateAnimations (s\<lparr>serverRenderTime := now - start\<rparr>))"
        using s by (simp add: serverInv_activateAnimations)
      then show ?thesis using ServerRendered
        by (simp add: Let_def simulateClientHydration_def setTimeout_id_def serverInv_setTimer_Own)
    qed (use s in \<open>simp_all add: Let_def serverInv_activateAnimations serverInv_simulateError
          serverInv_loadingTick\<close>)
  qed
  with Fire show ?thesis by simp
next
  case Destroy
  assume "serverInv s"
  with Destroy show ?thesis by simp
next
  case (User a)
  assume "serverInv s"
  with User show ?thesis
    by (cases a)
       (simp_all add: Let_def setTimeout_id_def serverInv_setTimer_Own serverInv_simulateError)
qed

lemma SsrDemo_browser_run:
  "browserInv 4 c (fold (SsrDemo_step rnd) evs (SsrDemo_attached False c now))"
proof -
  have "SsrDemo_inv c (fold (SsrDemo_step rnd) evs (SsrDemo_attached False c now))"
  proof (rule fold_inv [where P = "SsrDemo_inv c"])
    fix e s assume "SsrDemo_inv c s"
    then show "SsrDemo_inv c (SsrDemo_step rnd e s)" by (rule SsrDemo_step_inv)
  next
    show "SsrDemo_inv c (SsrDemo_attached False c now)"
      using SsrDemo_attached_browser [of c now] by (simp add: SsrDemo_inv_def)
  qed
  then show ?thesis by (simp add: SsrDemo_inv_def)
qed

lemma SsrDemo_server_run:
  "serverInv (fold (SsrDemo_step rnd) evs (SsrDemo_attached True c now))"
  by (rule fold_inv [where P = serverInv])
     (simp_all add: SsrDemo_step_serverInv SsrDemo_attached_server)

subsection \<open>Hydration in each component\<close>

lemma staysServerI:
  assumes "\<And>evs. serverInv (fold step evs s0)"
  shows "staysServer step s0"
  using assms by (simp add: staysServer_def serverInv_def Let_def)

lemma hydratesOnceI:
  assumes start: "awaiting k s0"
    and inv: "\<And>evs. browserInv k c (fold step evs s0)"
    and fire: "\<And>now rand s. step (Fire k now rand) s = fireTimer (run now rand) k s"
    and mark: "\<And>now rand s. run now rand MarkAsHydrated s = post (markAsHydrated now s)"
    and post: "\<And>s. post s = s \<or> (\<exists>kd x d. post s = setTimer kd (Own x) d s)"
  shows "hydratesOnce c k step s0"
proof -
  have "(hydrationTimers (fold step evs s0) = [hydrationTimer k] \<and>
         \<not> isHydrated (fold step evs s0) \<and>
         (\<forall>now rand. hydratedAt c now (step (Fire k now rand) (fold step evs s0)))) \<or>
        (hydrationTimers (fold step evs s0) = [] \<and> (\<exists>now. hydratedAt c now (fold step evs s0)))"
    for evs
  proof (cases "awaiting k (fold step evs s0)")
    case True
    have "hydratedAt c now (step (Fire k now rand) (fold step evs s0))" for now rand
      using fire_hydration_timer [of k c "fold step evs s0" "run now rand" post now,
          OF inv True mark post]
      by (simp add: fire)
    with True show ?thesis by (simp add: awaiting_def)
  next
    case False
    with inv [of evs] show ?thesis by (simp add: browserInv_def)
  qed
  with start show ?thesis by (simp add: hydratesOnce_def awaiting_def Let_def)
qed

lemma Home_contract:
  "staysServer Home_step (Home_attached True c) \<and>
   hydrationTimers (Home_ngOnInit (newHomeComponent False c)) = [] \<and>
   hydratesOnce c 2 Home_step (Home_attached False c)"
proof -
  have a: "staysServer Home_step (Home_attached True c)"
    by (rule staysServerI) (rule Home_server_run)
  have b: "hydrationTimers (Home_ngOnInit (newHomeComponent False c)) = []"
    by (simp add: Home_ngOnInit_def newHomeComponent_def attach_defs hydrationTimers_def Let_def)
  have c: "hydratesOnce c 2 Home_step (Home_attached False c)"
  proof (rule hydratesOnceI [where run = "\<lambda>now rand. Home_runCallback now" and post = "\<lambda>s. s"])
    show "awaiting 2 (Home_attached False c)" using Home_attached_browser by blast
  qed (simp_all add: Home_browser_run)
  from a b c show ?thesis by simp
qed

lemma Products_contract:
  "staysServer (Products_step rnd) (Products_attached True c) \<and>
   hydrationTimers (Products_ngOnInit (newProductsComponent False c)) = [] \<and>
   hydratesOnce c 6 (Products_step rnd) (Products_attached False c)"
proof -
  have a: "staysServer (Products_step rnd) (Products_attached True c)"
    by (rule staysServerI) (rule Products_server_run)
  have b: "hydrationTimers (Products_ngOnInit (newProductsComponent False c)) = []"
    by (simp add: Products_init_defs attach_defs hydrationTimers_def Let_def)
  have c: "hydratesOnce c 6 (Products_step rnd) (Products_attached False c)"
  proof (rule hydratesOnceI [where run = "\<lambda>now rand. Products_runCallback rnd now rand"
        and post = "\<lambda>s. s"])
    show "awaiting 6 (Products_attached False c)" using Products_attached_browser by blast
  qed (simp_all add: Products_browser_run)
  from a b c show ?thesis by simp
qed

lemma Reports_contract:
  "staysServer (Reports_step rnd) (Reports_attached True c now now') \<and>
   hydrationTimers (Reports_ngOnInit now now' (newReportsComponent False c)) = [] \<and>
   hydratesOnce c 5 (Reports_step rnd) (Reports_attached False c now now')"
proof -
  have a: "staysServer (Reports_step rnd) (Reports_attached True c now now')"
    by (rule staysServerI) (rule Reports_server_run)
  have b: "hydrationTimers (Reports_ngOnInit now now' (newReportsComponent False c)) = []"
    by (simp add: Reports_init_defs attach_defs hydrationTimers_def Let_def)
  have c: "hydratesOnce c 5 (Reports_step rnd) (Reports_attached False c now now')"
  proof (rule hydratesOnceI [where run = "\<lambda>now rand. Reports_runCallback rnd now rand"
        and post = "\<lambda>s. s"])
    show "awaiting 5 (Reports_attached False c now now')" using Reports_attached_browser by blast
  qed (simp_all add: Reports_browser_run)
  from a b c show ?thesis by simp
qed

lemma SsrDemo_contract:
  "staysServer (SsrDemo_step rnd) (SsrDemo_attached True c now) \<and>
   hydrationTimers (SsrDemo_ngOnInit now (newSsrDemoComponent False c)) = [] \<and>
   hydratesOnce c 4 (SsrDemo_step rnd) (SsrDemo_attached False c now)"
proof -
  have a: "staysServer (SsrDemo_step rnd) (SsrDemo_attached True c now)"
    by (rule staysServerI) (rule SsrDemo_server_run)
  have b: "hydrationTimers (SsrDemo_ngOnInit now (newSsrDemoComponent False c)) = []"
    by (simp add: SsrDemo_init_defs attach_defs hydrationTimers_def Let_def)
  have c: "hydratesOnce c 4 (SsrDemo_step rnd) (SsrDemo_attached False c now)"
  proof (rule hydratesOnceI [where run = "\<lambda>now rand. SsrDemo_runCallback rnd now rand"
        and post = "\<lambda>s. if SsrDemoComponent.activeTab s = ''animations'' \<and> showAnimations s
          then setTimer Timeout (Own StartAnimations) 500 s else s"])
    show "awaiting 4 (SsrDemo_attached False c now)" using SsrDemo_attached_browser by blast
  next
    fix s :: SsrDemoComponent
    show "(if SsrDemoComponent.activeTab s = ''animations'' \<and> showAnimations s
           then setTimer Timeout (Own StartAnimations) 500 s else s) = s \<or>
          (\<exists>kd x d. (if SsrDemoComponent.activeTab s = ''animations'' \<and> showAnimations s
           then setTimer Timeout (Own StartAnimations) 500 s else s) = setTimer kd (Own x) d s)"
      by auto
  next
    fix now rand s
    show "SsrDemo_runCallback rnd now rand MarkAsHydrated s =
        (if SsrDemoComponent.activeTab (markAsHydrated now s) = ''animations'' \<and>
            showAnimations (markAsHydrated now s)
         then setTimer Timeout (Own StartAnimations) 500 (markAsHydrated now s)
         else markAsHydrated now s)"
      by (simp add: SsrDemo_markAsHydrated_def Let_def setTimeout_id_def)
  qed (simp_all add: SsrDemo_browser_run)
  from a b c show ?thesis by simp
qed

lemmas run_eval =
  Home_execution_def Home_attached_def Home_ngOnInit_def newHomeComponent_def
  attach_defs fireTimer_def clearInterval_def markAsHydrated_def Let_def

subsection \<open>Metric updates\<close>

lemma rnd_fix_half:
  "roundsLikeDouble rnd \<Longrightarrow> \<bar>k\<bar> \<le> 2000 \<Longrightarrow> rnd (of_int k / 2) = of_int k / 2"
  by (simp add: roundsLikeDouble_def)

lemma rnd_between:
  assumes r: "roundsLikeDouble rnd" and "of_int a / 2 \<le> x" and "x \<le> of_int b / 2"
    and "\<bar>a\<bar> \<le> 2000" and "\<bar>b\<bar> \<le> 2000"
  shows "of_int a / 2 \<le> rnd x \<and> rnd x \<le> of_int b / 2"
proof -
  have m: "mono rnd" using r by (simp add: roundsLikeDouble_def)
  have "rnd (of_int a / 2) \<le> rnd x" using m assms(2) by (rule monoD)
  moreover have "rnd x \<le> rnd (of_int b / 2)" using m assms(3) by (rule monoD)
  ultimately show ?thesis using r assms(4,5) by (simp add: rnd_fix_half)
qed

lemma randomChange_bounds:
  assumes r: "roundsLikeDouble rnd" and "0 \<le> x" and "x < 1"
  shows "- 5 \<le> randomChange rnd x \<and> randomChange rnd x \<le> 5"
proof -
  have "of_int (- 1) / 2 \<le> x - 1 / 2" "x - 1 / 2 \<le> of_int 1 / 2" using assms(2,3) by simp_all
  with r have "of_int (- 1) / 2 \<le> rnd (x - 1 / 2) \<and> rnd (x - 1 / 2) \<le> of_int 1 / 2"
    by (rule rnd_between) simp_all
  then have "of_int (- 10) / 2 \<le> rnd (x - 1 / 2) * 10" "rnd (x - 1 / 2) * 10 \<le> of_int 10 / 2"
    by simp_all
  with r have "of_int (- 10) / 2 \<le> rnd (rnd (x - 1 / 2) * 10) \<and> rnd (rnd (x - 1 / 2) * 10) \<le> of_int 10 / 2"
    by (rule rnd_between) simp_all
  then show ?thesis by (simp add: randomChange_def)
qed

lemma Math_round_bounds:
  assumes "0 \<le> x" and "x \<le> 1000"
  shows "0 \<le> Math_round x \<and> Math_round x \<le> 1000"
proof -
  have "(0::int) \<le> \<lfloor>x + 1 / 2\<rfloor>" using assms(1) by simp
  moreover have "\<lfloor>x + 1 / 2\<rfloor> \<le> (1000::int)"
  proof -
    have "x + 1 / 2 < of_int 1001" using assms(2) by simp
    then have "\<lfloor>x + 1 / 2\<rfloor> < (1001::int)" by (simp only: floor_less_iff)
    then show ?thesis by simp
  qed
  ultimately have "(0::rat) \<le> of_int \<lfloor>x + 1 / 2\<rfloor> \<and> (of_int \<lfloor>x + 1 / 2\<rfloor> :: rat) \<le> of_int 1000"
    by (simp only: of_int_le_iff of_int_0_le_iff)
  then show ?thesis by (simp add: Math_round_def)
qed

lemma Math_round_int: "Math_round (of_int n) = of_int n"
  by (simp add: Math_round_def floor_eq_iff)

lemma updateMetric_value_bounds:
  assumes r: "roundsLikeDouble rnd"
  shows "0 \<le> value (updateMetric rnd x m) \<and> value (updateMetric rnd x m) \<le> 100"
proof -
  define nv where "nv = max 0 (min 100 (rnd (value m + randomChange rnd x)))"
  have nv: "0 \<le> nv" "nv \<le> 100" by (simp_all add: nv_def)
  then have "of_int 0 / 2 \<le> nv * 10" "nv * 10 \<le> of_int 2000 / 2" by simp_all
  with r have "of_int 0 / 2 \<le> rnd (nv * 10) \<and> rnd (nv * 10) \<le> of_int 2000 / 2"
    by (rule rnd_between) simp_all
  then have "0 \<le> rnd (nv * 10)" "rnd (nv * 10) \<le> 1000" by simp_all
  then have "0 \<le> Math_round (rnd (nv * 10)) \<and> Math_round (rnd (nv * 10)) \<le> 1000"
    by (rule Math_round_bounds)
  then have "of_int 0 / 2 \<le> Math_round (rnd (nv * 10)) / 10"
            "Math_round (rnd (nv * 10)) / 10 \<le> of_int 200 / 2" by simp_all
  with r have "of_int 0 / 2 \<le> rnd (Math_round (rnd (nv * 10)) / 10) \<and>
               rnd (Math_round (rnd (nv * 10)) / 10) \<le> of_int 200 / 2"
    by (rule rnd_between) simp_all
  then show ?thesis by (simp add: updateMetric_def Let_def nv_def)
qed

lemma updateMetric_fields:
  "LiveMetric.name (updateMetric rnd x m) = LiveMetric.name m"
  "value (updateMetric rnd x m) =
     rnd (Math_round (rnd (max 0 (min 100 (rnd (value m + randomChange rnd x))) * 10)) / 10)"
  "trend (updateMetric rnd x m) = Up \<longleftrightarrow> randomChange rnd x > 2"
  "trend (updateMetric rnd x m) = Down \<longleftrightarrow> randomChange rnd x < - 2"
  "trend (updateMetric rnd x m) = Stable \<longleftrightarrow> - 2 \<le> randomChange rnd x \<and> randomChange rnd x \<le> 2"
  by (auto simp: updateMetric_def Let_def)

lemma stream_metrics:
  "liveMetrics (Reports_runCallback rnd now rand (Own ReportsStream) s) =
     map (\<lambda>i. updateMetric rnd (rand i) (liveMetrics s ! i)) [0..<length (liveMetrics s)]"
  by (simp add: updateLiveMetrics_def Let_def)

lemma loadedReports_metrics:
  "liveMetrics loadedReports =
     [\<lparr>LiveMetric.name = ''CPU Usage'', value = 45, trend = Stable\<rparr>,
      \<lparr>LiveMetric.name = ''Memory Usage'', value = 62, trend = Up\<rparr>,
      \<lparr>LiveMetric.name = ''Network Latency'', value = 28, trend = Down\<rparr>,
      \<lparr>LiveMetric.name = ''Active Users'', value = 1234, trend = Up\<rparr>,
      \<lparr>LiveMetric.name = ''Requests/sec'', value = 156, trend = Up\<rparr>,
      \<lparr>LiveMetric.name = ''Error Rate'', value = 1 / 5, trend = Stable\<rparr>]"
  by (simp add: loadedReports_def Reports_init_defs attach_defs fireTimer_def clearInterval_def
      initializeLiveMetrics_def exact_def Let_def)

subsection \<open>Hydration, timers and live metrics\<close>

text \<open>
  Claim C6. In every execution of a hydration-tracking component, on the server or in the
  browser, the \<open>hydrationPhase\<close> signal never regresses. An execution is the
  construction, \<open>ngOnInit\<close>, \<open>ngAfterViewInit\<close> and then any sequence of timer
  callbacks, destruction and method calls; the phases of its states, in order, only
  move along server, loading, hydrated.
\<close>

theorem hydrationPhase_never_regresses:
  "sorted_wrt advances (map hydrationPhase (Home_execution serverH createdH evsH)) \<and>
   sorted_wrt advances (map hydrationPhase (Products_execution rndP serverP createdP evsP)) \<and>
   sorted_wrt advances
     (map hydrationPhase (Reports_execution rndR serverR createdR nowR nowR' evsR)) \<and>
   sorted_wrt advances
     (map hydrationPhase (SsrDemo_execution rndS serverS createdS nowS evsS))"
  by (simp only: Home_execution_sorted Products_execution_sorted Reports_execution_sorted
      SsrDemo_execution_sorted simp_thms)

theorem hydrationPhase_never_regresses_witness:
  "sorted_wrt advances
     (map hydrationPhase
        (Home_execution False 0 [Fire 1 1000 exampleRand, Fire 2 1100 exampleRand, Destroy,
           Fire 1 2000 exampleRand])) \<and>
   map hydrationPhase
     (Home_execution False 0 [Fire 1 1000 exampleRand, Fire 2 1100 exampleRand, Destroy,
        Fire 1 2000 exampleRand]) =
   [Server, Loading, Loading, Loading, Hydrated, Hydrated, Hydrated]"
  using hydrationPhase_never_regresses
    [of False 0 "[Fire 1 1000 exampleRand, Fire 2 1100 exampleRand, Destroy, Fire 1 2000 exampleRand]"]
  by (simp add: run_eval)

text \<open>
  Claim C7. For every hydration-tracking component: on the server no hydration callback is
  ever scheduled and \<open>hydrationPhase\<close> stays \<open>Server\<close>, whatever happens after the view
  is attached. In the browser \<open>ngOnInit\<close> schedules no hydration callback and
  \<open>ngAfterViewInit\<close> schedules exactly one, a timeout of 100 ms; it stays pending until
  it fires, and when it fires at time \<open>now\<close> it sets \<open>isHydrated\<close>, \<open>hydrationTime\<close> to
  \<open>now\<close>, \<open>hydrationDuration\<close> to \<open>now\<close> minus \<open>componentCreated\<close> and
  \<open>hydrationPhase\<close> to \<open>Hydrated\<close>; afterwards these signals keep such values.
\<close>

theorem hydration_callback_by_environment:
  "staysServer Home_step (Home_attached True createdH) \<and>
   hydrationTimers (Home_ngOnInit (newHomeComponent False createdH)) = [] \<and>
   hydratesOnce createdH 2 Home_step (Home_attached False createdH) \<and>
   staysServer (Products_step rndP) (Products_attached True createdP) \<and>
   hydrationTimers (Products_ngOnInit (newProductsComponent False createdP)) = [] \<and>
   hydratesOnce createdP 6 (Products_step rndP) (Products_attached False createdP) \<and>
   staysServer (Reports_step rndR) (Reports_attached True createdR nowR nowR') \<and>
   hydrationTimers (Reports_ngOnInit nowR nowR' (newReportsComponent False createdR)) = [] \<and>
   hydratesOnce createdR 5 (Reports_step rndR) (Reports_attached False createdR nowR nowR') \<and>
   staysServer (SsrDemo_step rndS) (SsrDemo_attached True createdS nowS) \<and>
   hydrationTimers (SsrDemo_ngOnInit nowS (newSsrDemoComponent False createdS)) = [] \<and>
   hydratesOnce createdS 4 (SsrDemo_step rndS) (SsrDemo_attached False createdS nowS)"
  using Home_contract [of createdH] Products_contract [of rndP createdP]
    Reports_contract [of rndR createdR nowR nowR'] SsrDemo_contract [of rndS createdS nowS]
  by (simp only: simp_thms)

theorem hydration_callback_by_environment_witness:
  "hydrationPhase (fold (Reports_step exact) [Fire 3 500 exampleRand, Destroy]
      (Reports_attached True 7 8 9)) = Server \<and>
   hydrationTimers (Reports_attached False 7 8 9) =
     [\<lparr>timerId = 5, kind = Timeout, delay = 100, callback = MarkAsHydrated\<rparr>] \<and>
   hydratedAt 7 120
     (Reports_step exact (Fire 5 120 exampleRand)
        (fold (Reports_step exact) [Fire 3 50 exampleRand, Destroy] (Reports_attached False 7 8 9)))"
proof -
  let ?evs = "[Fire 3 50 exampleRand, Destroy] :: reports_action event list"
  let ?s = "fold (Reports_step exact) ?evs (Reports_attached False 7 8 9)"
  note inst = hydration_callback_by_environment [where rndR = exact and createdR = 7 and nowR = 8
      and nowR' = 9]
  from inst have srv: "staysServer (Reports_step exact) (Reports_attached True 7 8 9)"
    and once: "hydratesOnce 7 5 (Reports_step exact) (Reports_attached False 7 8 9)"
    by blast+
  from srv have a: "hydrationPhase (fold (Reports_step exact) [Fire 3 500 exampleRand, Destroy]
      (Reports_attached True 7 8 9)) = Server"
    unfolding staysServer_def Let_def by blast
  from once have b: "hydrationTimers (Reports_attached False 7 8 9) = [hydrationTimer 5]"
    unfolding hydratesOnce_def by blast
  from once have "(hydrationTimers ?s = [hydrationTimer 5] \<and> \<not> isHydrated ?s \<and>
        (\<forall>now rand. hydratedAt 7 now (Reports_step exact (Fire 5 now rand) ?s))) \<or>
      (hydrationTimers ?s = [] \<and> (\<exists>now. hydratedAt 7 now ?s))"
    unfolding hydratesOnce_def Let_def by blast
  moreover have "\<not> isHydrated ?s"
    by (simp add: Reports_init_defs attach_defs fireTimer_def clearInterval_def clearIfSet_def
        Reports_ngOnDestroy_def updateLiveMetrics_def Let_def)
  ultimately have "hydratedAt 7 120 (Reports_step exact (Fire 5 120 exampleRand) ?s)"
    by (auto simp: hydratedAt_def)
  with a b show ?thesis by (simp add: hydrationTimer_def)
qed

text \<open>
  Claim C10 says that after the destruction hook no timer of the component remains
  active. The hooks of the reports and products components clear the two intervals whose
  ids they stored; the connection-status interval, the user-activity interval and the
  timeouts stay in the table, and the home component clears nothing. The timer tables
  after destroying the components in a browser:
\<close>

theorem ngOnDestroy_leaves_timers:
  "timerTable (Reports_step exact Destroy (Reports_attached False 0 0 0)) =
     [\<lparr>timerId = 1, kind = Timeout, delay = 800, callback = Own ReportsLoaded\<rparr>,
      \<lparr>timerId = 4, kind = Interval, delay = 10000, callback = Own ReportsConnection\<rparr>,
      \<lparr>timerId = 5, kind = Timeout, delay = 100, callback = MarkAsHydrated\<rparr>] \<and>
   timerTable (Products_step exact Destroy (Products_attached False 0)) =
     [\<lparr>timerId = 1, kind = Timeout, delay = 800, callback = Own ProductsLoaded\<rparr>,
      \<lparr>timerId = 4, kind = Interval, delay = 15000, callback = Own ProductsConnection\<rparr>,
      \<lparr>timerId = 5, kind = Interval, delay = 10000, callback = Own ProductsUserActivity\<rparr>,
      \<lparr>timerId = 6, kind = Timeout, delay = 100, callback = MarkAsHydrated\<rparr>] \<and>
   timerTable (Home_step Destroy (Home_attached False 0)) =
     [\<lparr>timerId = 1, kind = Interval, delay = 1000, callback = Own UpdateServerTime\<rparr>,
      \<lparr>timerId = 2, kind = Timeout, delay = 100, callback = MarkAsHydrated\<rparr>]"
  by (simp add: Reports_init_defs Products_init_defs Home_attached_def Home_ngOnInit_def
      newHomeComponent_def attach_defs Reports_ngOnDestroy_def Products_ngOnDestroy_def
      clearIfSet_def clearInterval_def Let_def)

text \<open>
  Claim C8. On every tick of the live-metric timer, each metric's value becomes
  \<open>value + \<delta>\<close> clamped to \<open>[0, 100]\<close> and rounded to one decimal, for the random
  delta \<open>\<delta>\<close>, which lies within \<open>[-5, 5]\<close>; its trend is \<open>Up\<close> iff \<open>\<delta> > 2\<close>,
  \<open>Down\<close> iff \<open>\<delta> < -2\<close> and \<open>Stable\<close> otherwise; and every value after the update
  lies within \<open>[0, 100]\<close>. The rounding of double arithmetic is any monotone function
  that leaves the multiples of one half unchanged.
\<close>

theorem live_metric_tick:
  assumes rnd: "roundsLikeDouble rnd"
    and i: "i < length (liveMetrics s)"
    and rand: "0 \<le> rand i" "rand i < 1"
  shows
    "(let s' = Reports_runCallback rnd now rand (Own ReportsStream) s;
          m = liveMetrics s ! i; m' = liveMetrics s' ! i;
          \<delta> = randomChange rnd (rand i)
      in length (liveMetrics s') = length (liveMetrics s) \<and>
         LiveMetric.name m' = LiveMetric.name m \<and>
         - 5 \<le> \<delta> \<and> \<delta> \<le> 5 \<and>
         value m' = rnd (Math_round (rnd (max 0 (min 100 (rnd (value m + \<delta>))) * 10)) / 10) \<and>
         (trend m' = Up \<longleftrightarrow> \<delta> > 2) \<and>
         (trend m' = Down \<longleftrightarrow> \<delta> < - 2) \<and>
         (trend m' = Stable \<longleftrightarrow> - 2 \<le> \<delta> \<and> \<delta> \<le> 2) \<and>
         0 \<le> value m' \<and> value m' \<le> 100)"
proof -
  have nth: "liveMetrics (Reports_runCallback rnd now rand (Own ReportsStream) s) ! i =
      updateMetric rnd (rand i) (liveMetrics s ! i)"
    using i by (simp add: updateLiveMetrics_def Let_def)
  have len: "length (liveMetrics (Reports_runCallback rnd now rand (Own ReportsStream) s)) =
      length (liveMetrics s)"
    by (simp add: updateLiveMetrics_def Let_def)
  have b: "- 5 \<le> randomChange rnd (rand i) \<and> randomChange rnd (rand i) \<le> 5"
    using rnd rand by (rule randomChange_bounds)
  have v: "0 \<le> value (updateMetric rnd (rand i) (liveMetrics s ! i)) \<and>
           value (updateMetric rnd (rand i) (liveMetrics s ! i)) \<le> 100"
    using rnd by (rule updateMetric_value_bounds)
  show ?thesis
    unfolding Let_def nth len using b v by (simp only: updateMetric_fields simp_thms)
qed

theorem live_metric_tick_witness:
  "roundsLikeDouble exact \<and> 3 < length (liveMetrics loadedReports) \<and>
   0 \<le> exampleRand 3 \<and> exampleRand 3 < 1 \<and>
   randomChange exact (exampleRand 3) = 4 \<and>
   liveMetrics (Reports_runCallback exact 1300 exampleRand (Own ReportsStream) loadedReports) ! 3 =
     \<lparr>LiveMetric.name = ''Active Users'', value = 100, trend = Up\<rparr>"
proof -
  have h1: "roundsLikeDouble exact"
    by (simp add: roundsLikeDouble_def exact_def mono_def)
  have h2: "3 < length (liveMetrics loadedReports)" by (simp add: loadedReports_metrics)
  have h3: "0 \<le> exampleRand 3" "exampleRand 3 < 1" by (simp_all add: exampleRand_def)
  have d: "randomChange exact (exampleRand 3) = 4"
    by (simp add: randomChange_def exact_def exampleRand_def)
  have m: "liveMetrics loadedReports ! 3 = \<lparr>LiveMetric.name = ''Active Users'', value = 1234, trend = Up\<rparr>"
    by (simp add: loadedReports_metrics)
  have eq: "\<And>m :: LiveMetric. LiveMetric.name m = ''Active Users'' \<Longrightarrow> value m = 100 \<Longrightarrow> trend m = Up \<Longrightarrow>
      m = \<lparr>LiveMetric.name = ''Active Users'', value = 100, trend = Up\<rparr>"
    by simp
  have "Math_round (of_int 1000) = of_int 1000" by (rule Math_round_int)
  then have v: "exact (Math_round (exact (max 0 (min 100 (exact 1238)) * 10)) / 10) = 100"
    by (simp add: exact_def)
  have "liveMetrics (Reports_runCallback exact 1300 exampleRand (Own ReportsStream) loadedReports) ! 3 =
     \<lparr>LiveMetric.name = ''Active Users'', value = 100, trend = Up\<rparr>"
    using live_metric_tick [where rnd = exact and i = 3 and s = loadedReports and rand = exampleRand
        and now = 1300, OF h1 h2 h3]
    apply (simp only: Let_def d m)
    apply (rule eq)
      apply (simp_all add: v)
    done
  with h1 h2 h3 d show ?thesis by simp
qed

end
